theory Spec2Isabelle
  imports Complex_Main
begin

section \<open>Strings, errors and numeric primitives\<close>

text \<open>
  A Python \<open>str\<close> is a sequence of Unicode code points, and \<open>len\<close> counts code
  points; it is modelled as a list of natural numbers.  Python's \<open>float\<close> is modelled
  by \<open>real\<close>: every statement below about a weight or a similarity is a statement of
  exact real arithmetic, except those on the pair-finding step in floating point, where each
  operation is rounded to a double.
\<close>

type_synonym pystr = "nat list"

definition str :: "string \<Rightarrow> pystr" where
  "str s = map of_char s"

datatype py_error = ValueError | ZeroDivisionError | KeyError

text \<open>\<open>a / b\<close> raises \<open>ZeroDivisionError\<close> when \<open>b\<close> is zero.\<close>

definition py_truediv :: "real \<Rightarrow> real \<Rightarrow> py_error + real" where
  "py_truediv a b = (if b = 0 then Inl ZeroDivisionError else Inr (a / b))"

text \<open>\<open>math.log\<close> and \<open>math.sqrt\<close> raise \<open>ValueError\<close> outside their domain.\<close>

definition math_log :: "real \<Rightarrow> py_error + real" where
  "math_log x = (if x \<le> 0 then Inl ValueError else Inr (ln x))"

definition math_sqrt :: "real \<Rightarrow> py_error + real" where
  "math_sqrt x = (if x < 0 then Inl ValueError else Inr (sqrt x))"

text \<open>
  A \<open>for\<close> loop (or comprehension) that computes one value per element and stops at the
  first exception.
\<close>

fun for_each :: "('a \<Rightarrow> py_error + 'b) \<Rightarrow> 'a list \<Rightarrow> py_error + 'b list" where
  "for_each f [] = Inr []"
| "for_each f (x # xs) =
     (case f x of
        Inl e \<Rightarrow> Inl e
      | Inr y \<Rightarrow> (case for_each f xs of Inl e \<Rightarrow> Inl e | Inr ys \<Rightarrow> Inr (y # ys)))"

text \<open>
  Dictionaries are association lists in insertion order, as Python's \<open>dict\<close> keeps them.
  \<open>d[k]\<close> raises \<open>KeyError\<close> on a missing key, \<open>d.get(k, default)\<close> does not, and
  \<open>d[k] += 1\<close> on a \<open>defaultdict(int)\<close> inserts the key with count 1 when it is new.
\<close>

definition getitem :: "('k \<times> 'v) list \<Rightarrow> 'k \<Rightarrow> py_error + 'v" where
  "getitem d k = (case map_of d k of None \<Rightarrow> Inl KeyError | Some v \<Rightarrow> Inr v)"

definition dict_get :: "('k \<times> 'v) list \<Rightarrow> 'k \<Rightarrow> 'v \<Rightarrow> 'v" where
  "dict_get d k dflt = (case map_of d k of None \<Rightarrow> dflt | Some v \<Rightarrow> v)"

fun incr :: "'k \<Rightarrow> ('k \<times> nat) list \<Rightarrow> ('k \<times> nat) list" where
  "incr w [] = [(w, 1)]"
| "incr w ((k, c) # rest) = (if k = w then (k, c + 1) # rest else (k, c) # incr w rest)"

section \<open>Text normalizer (\<open>clean_text\<close>)\<close>

text \<open>
  The characters that \<open>\s\<close>, \<open>str.split()\<close> and \<open>str.strip()\<close> treat as white space
  (the same table in CPython): U+0009..U+000D, U+001C..U+0020, U+0085, U+00A0, U+1680,
  U+2000..U+200A, U+2028, U+2029, U+202F, U+205F, U+3000.
\<close>

definition isspace :: "nat \<Rightarrow> bool" where
  "isspace c \<longleftrightarrow>
     (9 \<le> c \<and> c \<le> 13) \<or> (28 \<le> c \<and> c \<le> 32) \<or> c = 133 \<or> c = 160 \<or> c = 5760 \<or>
     (8192 \<le> c \<and> c \<le> 8202) \<or> c = 8232 \<or> c = 8233 \<or> c = 8239 \<or> c = 8287 \<or> c = 12288"

text \<open>
  The character class of the first substitution: \<open>a-z\<close>, the seven accented letters
  (the precomposed code points U+00E1, U+00E9, U+00ED, U+00F3, U+00FA, U+00F1 and U+00FC),
  \<open>0-9\<close> and \<open>\s\<close>.
\<close>

definition kept_char :: "nat \<Rightarrow> bool" where
  "kept_char c \<longleftrightarrow>
     (97 \<le> c \<and> c \<le> 122) \<or>
     c = 225 \<or> c = 233 \<or> c = 237 \<or> c = 243 \<or> c = 250 \<or> c = 241 \<or> c = 252 \<or>
     (48 \<le> c \<and> c \<le> 57) \<or> isspace c"

text \<open>\<open>re.sub(r'[^a-z...0-9\s]', ' ', text)\<close>: every other character becomes a space.\<close>

definition sub_other :: "pystr \<Rightarrow> pystr" where
  "sub_other text = map (\<lambda>c. if kept_char c then c else 32) text"

text \<open>\<open>re.sub(r'\s+', ' ', text)\<close>: every maximal run of white space becomes one space.\<close>

function sub_spaces :: "pystr \<Rightarrow> pystr" where
  "sub_spaces [] = []"
| "sub_spaces (c # cs) =
     (if isspace c then 32 # sub_spaces (dropWhile isspace cs) else c # sub_spaces cs)"
  by pat_completeness auto
termination
  by (relation "measure length") (auto simp: less_Suc_eq_le length_dropWhile_le)

definition strip :: "pystr \<Rightarrow> pystr" where
  "strip s = rev (dropWhile isspace (rev (dropWhile isspace s)))"

text \<open>
  \<open>str.lower()\<close> follows the case mapping of the Unicode database, which is part of the
  Python runtime; it is a parameter of the model.  \<open>clean_text\<close> is the same function
  in \<open>find_similar_questions.py\<close> and in \<open>QuestionAnalyzer\<close>.
\<close>

definition clean_text :: "(pystr \<Rightarrow> pystr) \<Rightarrow> pystr \<Rightarrow> pystr" where
  "clean_text lower text = strip (sub_spaces (sub_other (lower text)))"

text \<open>
  What the proofs need of \<open>str.lower()\<close>: a string of lower-case ASCII letters, the
  seven accented letters, digits and spaces is already in lower case.
\<close>

definition normal_char :: "nat \<Rightarrow> bool" where
  "normal_char c \<longleftrightarrow> kept_char c \<and> (isspace c \<longrightarrow> c = 32)"

definition lower_fixes_normal :: "(pystr \<Rightarrow> pystr) \<Rightarrow> bool" where
  "lower_fixes_normal lower \<longleftrightarrow> (\<forall>s. list_all normal_char s \<longrightarrow> lower s = s)"

text \<open>A lower-casing of the ASCII capitals only, used to run the model on examples.\<close>

definition ascii_lower :: "pystr \<Rightarrow> pystr" where
  "ascii_lower s = map (\<lambda>c. if 65 \<le> c \<and> c \<le> 90 then c + 32 else c) s"

section \<open>Term frequencies\<close>

text \<open>\<open>text.split()\<close>: the maximal runs of characters that are not white space.\<close>

function split_ws :: "pystr \<Rightarrow> pystr list" where
  "split_ws [] = []"
| "split_ws (c # cs) =
     (if isspace c then split_ws cs
      else (c # takeWhile (\<lambda>x. \<not> isspace x) cs) # split_ws (dropWhile (\<lambda>x. \<not> isspace x) cs))"
  by pat_completeness auto
termination
  by (relation "measure length") (auto simp: less_Suc_eq_le length_dropWhile_le)

text \<open>
  The body of the counting loops, \<open>if len(word) > 2: freq[word] += 1\<close>, which
  \<open>compute_word_freq\<close> and \<open>compute_idf\<close> share.
\<close>

definition count_word :: "pystr \<Rightarrow> (pystr \<times> nat) list \<Rightarrow> (pystr \<times> nat) list" where
  "count_word word freq = (if length word > 2 then incr word freq else freq)"

text \<open>\<open>compute_word_freq\<close> (the same in both files).\<close>

definition compute_word_freq :: "pystr \<Rightarrow> (pystr \<times> nat) list" where
  "compute_word_freq text = fold count_word (split_ws text) []"

section \<open>Document assembler\<close>

text \<open>
  The dictionary built by \<open>extract_question_info\<close> (the extraction from XML is outside the
  model).
\<close>

record question_info =
  info_type :: pystr
  info_name :: pystr
  info_text :: pystr
  info_answers :: "pystr list"
  info_feedbacks :: "pystr list"
  info_generalfeedback :: pystr

text \<open>\<open>sep.join(parts)\<close>.\<close>

fun join :: "pystr \<Rightarrow> pystr list \<Rightarrow> pystr" where
  "join sep [] = []"
| "join sep [x] = x"
| "join sep (x # y # ys) = x @ sep @ join sep (y # ys)"

text \<open>\<open>get_question_full_text\<close> of \<open>find_similar_questions.py\<close>.\<close>

definition get_question_full_text :: "question_info \<Rightarrow> pystr" where
  "get_question_full_text info =
     (let parts = [info_text info] @ info_answers info @ info_feedbacks info;
          parts = (if info_generalfeedback info \<noteq> [] then parts @ [info_generalfeedback info]
                   else parts)
      in join [32] parts)"

text \<open>
  The entries of the list \<open>questions\<close> of \<open>find_similar_questions.py\<close>.  The key
  \<open>'vector'\<close> exists only once \<open>find_similar_questions_in_file\<close> has stored it; before
  that the field \<open>q_vector\<close> holds the empty vector and is not read.
\<close>

record question =
  q_file :: pystr
  q_rel_file :: pystr
  q_index :: nat
  q_info :: question_info
  q_text :: pystr
  q_full_text :: pystr
  q_vector :: "(pystr \<times> real) list"

text \<open>
  \<open>load_questions_from_file\<close>, after the XML has been parsed: \<open>infos\<close> are the results of
  \<open>extract_question_info\<close> on the \<open>question\<close> elements of the file, in order.
\<close>

definition load_questions_from_file ::
  "(pystr \<Rightarrow> pystr) \<Rightarrow> pystr \<Rightarrow> pystr \<Rightarrow> question_info list \<Rightarrow> question list" where
  "load_questions_from_file lower file rel_file infos =
     concat (map (\<lambda>(i, info).
       if info_type info = str ''category'' then []
       else (let full_text = get_question_full_text info;
                 clean = clean_text lower full_text
             in if clean \<noteq> []
                then [\<lparr>q_file = file, q_rel_file = rel_file, q_index = i, q_info = info,
                       q_text = clean, q_full_text = full_text, q_vector = []\<rparr>]
                else []))
       (enumerate 0 infos))"

text \<open>
  The entries of \<open>QuestionAnalyzer.all_questions\<close> of \<open>evaluate_questions_directory.py\<close>.
  The keys \<open>'clean_text'\<close> and \<open>'vector'\<close> exist only once \<open>find_duplicates\<close> has stored
  them; before that the two fields are empty and are not read.
\<close>

record qa_question =
  qa_filepath :: pystr
  qa_type :: pystr
  qa_name :: pystr
  qa_text :: pystr
  qa_answers :: "pystr list"
  qa_full_text :: pystr
  qa_clean_text :: pystr
  qa_vector :: "(pystr \<times> real) list"

text \<open>
  The part of the state of a \<open>QuestionAnalyzer\<close> that the duplicate search reads and
  writes (the statistics and the list of issues are left out).
\<close>

record analyzer =
  similarity_threshold :: real
  all_questions :: "qa_question list"
  duplicates :: "(nat \<times> nat \<times> real) list"

definition new_analyzer :: "real \<Rightarrow> analyzer" where
  "new_analyzer threshold =
     \<lparr>similarity_threshold = threshold, all_questions = [], duplicates = []\<rparr>"

text \<open>
  \<open>QuestionAnalyzer.analyze_question\<close>, reduced to what it stores for the duplicate search:
  \<open>q_type\<close>, \<open>name\<close>, \<open>text\<close> and \<open>answer_texts\<close> are the values it has extracted from
  the XML element.  A category element stores nothing.
\<close>

definition analyze_question ::
  "analyzer \<Rightarrow> pystr \<Rightarrow> pystr \<Rightarrow> pystr \<Rightarrow> pystr \<Rightarrow> pystr list \<Rightarrow> analyzer" where
  "analyze_question a filepath q_type name text answer_texts =
     (if q_type = str ''category'' then a
      else a\<lparr>all_questions := all_questions a @
             [\<lparr>qa_filepath = filepath, qa_type = q_type, qa_name = name, qa_text = text,
               qa_answers = answer_texts,
               qa_full_text = name @ [32] @ text @ [32] @ join [32] answer_texts,
               qa_clean_text = [], qa_vector = []\<rparr>]\<rparr>)"

section \<open>Corpus statistics (IDF)\<close>

text \<open>
  The first loop of \<open>compute_idf\<close> (the same in both files): the number of documents each
  word of more than two characters occurs in.  The order in which Python iterates over
  \<open>set(text.split())\<close> is not fixed; it only decides the order of the keys of the
  dictionary, which is read by key alone.
\<close>

definition count_documents :: "pystr list \<Rightarrow> (pystr \<times> nat) list" where
  "count_documents all_texts =
     fold (\<lambda>text doc_count. fold count_word (remdups (split_ws text)) doc_count)
       all_texts []"

text \<open>The document frequency of a word: the number of documents it occurs in.\<close>

definition document_frequency :: "pystr list \<Rightarrow> pystr \<Rightarrow> nat" where
  "document_frequency all_texts word =
     length (filter (\<lambda>text. word \<in> set (split_ws text)) all_texts)"

text \<open>\<open>compute_idf\<close> of \<open>find_similar_questions.py\<close>: the smoothed formula.\<close>

definition compute_idf :: "pystr list \<Rightarrow> py_error + (pystr \<times> real) list" where
  "compute_idf all_texts =
     (let doc_count = count_documents all_texts;
          num_docs = length all_texts
      in for_each (\<lambda>(word, count).
           case py_truediv (real (num_docs + 1)) (real (count + 1)) of
             Inl e \<Rightarrow> Inl e
           | Inr q \<Rightarrow> (case math_log q of Inl e \<Rightarrow> Inl e | Inr l \<Rightarrow> Inr (word, l + 1)))
         doc_count)"

text \<open>\<open>QuestionAnalyzer.compute_idf\<close> of \<open>evaluate_questions_directory.py\<close>.\<close>

definition qa_compute_idf :: "pystr list \<Rightarrow> py_error + (pystr \<times> real) list" where
  "qa_compute_idf all_texts =
     (let doc_count = count_documents all_texts;
          num_docs = length all_texts
      in for_each (\<lambda>(word, count).
           case py_truediv (real num_docs) (real (1 + count)) of
             Inl e \<Rightarrow> Inl e
           | Inr q \<Rightarrow> (case math_log q of Inl e \<Rightarrow> Inl e | Inr l \<Rightarrow> Inr (word, l)))
         doc_count)"

section \<open>Vectorizer and cosine similarity\<close>

text \<open>\<open>compute_tfidf_vector\<close> (the same in both files).\<close>

definition compute_tfidf_vector ::
  "pystr \<Rightarrow> (pystr \<times> real) list \<Rightarrow> py_error + (pystr \<times> real) list" where
  "compute_tfidf_vector text idf =
     (let freq = compute_word_freq text;
          total_words = sum_list (map snd freq)
      in if total_words = 0 then Inr []
         else for_each (\<lambda>(word, count).
                case py_truediv (real count) (real total_words) of
                  Inl e \<Rightarrow> Inl e
                | Inr tf \<Rightarrow> Inr (word, tf * dict_get idf word 0))
              freq)"

text \<open>
  \<open>cosine_similarity\<close> (the same in both files).  \<open>common_words\<close> is a Python set; the
  order in which the products are added does not change a sum of reals.
\<close>

definition cosine_similarity ::
  "(pystr \<times> real) list \<Rightarrow> (pystr \<times> real) list \<Rightarrow> py_error + real" where
  "cosine_similarity vec1 vec2 =
     (if vec1 = [] \<or> vec2 = [] then Inr 0
      else
        let common_words = filter (\<lambda>w. w \<in> set (map fst vec2)) (remdups (map fst vec1))
        in if common_words = [] then Inr 0
           else
             case for_each (\<lambda>word.
                    case getitem vec1 word of
                      Inl e \<Rightarrow> Inl e
                    | Inr x \<Rightarrow> (case getitem vec2 word of
                                 Inl e \<Rightarrow> Inl e
                               | Inr y \<Rightarrow> Inr (x * y)))
                  common_words of
               Inl e \<Rightarrow> Inl e
             | Inr products \<Rightarrow>
                 (let dot_product = sum_list products
                  in (case math_sqrt (sum_list (map (\<lambda>(k, val). val\<^sup>2) vec1)) of
                        Inl e \<Rightarrow> Inl e
                      | Inr mag1 \<Rightarrow>
                          (case math_sqrt (sum_list (map (\<lambda>(k, val). val\<^sup>2) vec2)) of
                             Inl e \<Rightarrow> Inl e
                           | Inr mag2 \<Rightarrow>
                               if mag1 = 0 \<or> mag2 = 0 then Inr 0
                               else py_truediv dot_product (mag1 * mag2)))))"

section \<open>Pair enumeration\<close>

text \<open>
  The nested loops of \<open>find_similar_questions_in_file\<close> and of \<open>find_duplicates\<close>:
  \<open>vectors\<close> are the values of \<open>q['vector']\<close> in document order, and a pair is appended
  when its similarity reaches the threshold.
\<close>

fun compare_with ::
  "(pystr \<times> real) list list \<Rightarrow> real \<Rightarrow> nat \<Rightarrow> nat list \<Rightarrow> (nat \<times> nat \<times> real) list \<Rightarrow>
   py_error + (nat \<times> nat \<times> real) list" where
  "compare_with vectors threshold i [] pairs = Inr pairs"
| "compare_with vectors threshold i (j # js) pairs =
     (case cosine_similarity (vectors ! i) (vectors ! j) of
        Inl e \<Rightarrow> Inl e
      | Inr similarity \<Rightarrow>
          compare_with vectors threshold i js
            (if similarity \<ge> threshold then pairs @ [(i, j, similarity)] else pairs))"

fun compare_all ::
  "(pystr \<times> real) list list \<Rightarrow> real \<Rightarrow> nat list \<Rightarrow> (nat \<times> nat \<times> real) list \<Rightarrow>
   py_error + (nat \<times> nat \<times> real) list" where
  "compare_all vectors threshold [] pairs = Inr pairs"
| "compare_all vectors threshold (i # rest) pairs =
     (case compare_with vectors threshold i [i + 1 ..< length vectors] pairs of
        Inl e \<Rightarrow> Inl e
      | Inr pairs' \<Rightarrow> compare_all vectors threshold rest pairs')"

text \<open>
  \<open>pairs.sort(key=lambda x: x[2], reverse=True)\<close>: Python's sort is stable, also with
  \<open>reverse=True\<close>, so pairs of equal similarity keep their order.
\<close>

definition sort_by_similarity :: "(nat \<times> nat \<times> real) list \<Rightarrow> (nat \<times> nat \<times> real) list" where
  "sort_by_similarity pairs = sort_key (\<lambda>(i, j, similarity). - similarity) pairs"

text \<open>
  \<open>find_similar_questions_in_file\<close>, from the list \<open>questions\<close> that
  \<open>load_questions_from_file\<close> has returned.
\<close>

definition find_similar_questions_in_file ::
  "question list \<Rightarrow> real \<Rightarrow> py_error + (question list \<times> (nat \<times> nat \<times> real) list)" where
  "find_similar_questions_in_file questions threshold =
     (let all_texts = map q_text questions
      in case compute_idf all_texts of
           Inl e \<Rightarrow> Inl e
         | Inr idf \<Rightarrow>
             (case for_each (\<lambda>q. case compute_tfidf_vector (q_text q) idf of
                                    Inl e \<Rightarrow> Inl e
                                  | Inr v \<Rightarrow> Inr (q\<lparr>q_vector := v\<rparr>))
                     questions of
                Inl e \<Rightarrow> Inl e
              | Inr questions' \<Rightarrow>
                  (case compare_all (map q_vector questions') threshold
                          [0 ..< length questions'] [] of
                     Inl e \<Rightarrow> Inl e
                   | Inr similar_pairs \<Rightarrow>
                       Inr (questions', sort_by_similarity similar_pairs))))"

text \<open>
  \<open>QuestionAnalyzer.find_duplicates\<close>: with fewer than two questions it returns at once
  and leaves the analyzer as it is; otherwise the new pairs are appended to
  \<open>self.duplicates\<close>, which is then sorted.
\<close>

definition find_duplicates :: "(pystr \<Rightarrow> pystr) \<Rightarrow> analyzer \<Rightarrow> py_error + analyzer" where
  "find_duplicates lower a =
     (if length (all_questions a) < 2 then Inr a
      else
        let questions =
              map (\<lambda>q. q\<lparr>qa_clean_text := clean_text lower (qa_full_text q)\<rparr>) (all_questions a);
            all_texts = map qa_clean_text questions
        in case qa_compute_idf all_texts of
             Inl e \<Rightarrow> Inl e
           | Inr idf \<Rightarrow>
               (case for_each (\<lambda>q. case compute_tfidf_vector (qa_clean_text q) idf of
                                      Inl e \<Rightarrow> Inl e
                                    | Inr v \<Rightarrow> Inr (q\<lparr>qa_vector := v\<rparr>))
                       questions of
                  Inl e \<Rightarrow> Inl e
                | Inr questions' \<Rightarrow>
                    (case compare_all (map qa_vector questions') (similarity_threshold a)
                            [0 ..< length questions'] (duplicates a) of
                       Inl e \<Rightarrow> Inl e
                     | Inr dups \<Rightarrow>
                         Inr (a\<lparr>all_questions := questions',
                                duplicates := sort_by_similarity dups\<rparr>))))"

section \<open>Notions used in the statements and proofs\<close>

text \<open>
  The keys two vectors share, their dot product over these keys and the magnitude of a
  vector, as \<open>cosine_similarity\<close> computes them; a key that is missing reads as 0.
\<close>

definition common_keys :: "(pystr \<times> real) list \<Rightarrow> (pystr \<times> real) list \<Rightarrow> pystr list" where
  "common_keys vec1 vec2 = filter (\<lambda>w. w \<in> set (map fst vec2)) (remdups (map fst vec1))"

definition dot_value :: "(pystr \<times> real) list \<Rightarrow> (pystr \<times> real) list \<Rightarrow> real" where
  "dot_value vec1 vec2 =
     sum_list (map (\<lambda>w. dict_get vec1 w 0 * dict_get vec2 w 0) (common_keys vec1 vec2))"

definition magnitude :: "(pystr \<times> real) list \<Rightarrow> real" where
  "magnitude vec = sqrt (sum_list (map (\<lambda>(k, val). val\<^sup>2) vec))"

text \<open>The similarity that \<open>cosine_similarity\<close> returns (it never raises).\<close>

definition cosine_value :: "(pystr \<times> real) list \<Rightarrow> (pystr \<times> real) list \<Rightarrow> real" where
  "cosine_value vec1 vec2 = (case cosine_similarity vec1 vec2 of Inl e \<Rightarrow> 0 | Inr s \<Rightarrow> s)"

text \<open>The vector that \<open>compute_tfidf_vector\<close> returns (it never raises).\<close>

definition tfidf_value :: "pystr \<Rightarrow> (pystr \<times> real) list \<Rightarrow> (pystr \<times> real) list" where
  "tfidf_value text idf = (case compute_tfidf_vector text idf of Inl e \<Rightarrow> [] | Inr v \<Rightarrow> v)"

text \<open>The tables that the two \<open>compute_idf\<close> return (they never raise).\<close>

definition idf_table :: "pystr list \<Rightarrow> (pystr \<times> real) list" where
  "idf_table all_texts = (case compute_idf all_texts of Inl e \<Rightarrow> [] | Inr idf \<Rightarrow> idf)"

definition qa_idf_table :: "pystr list \<Rightarrow> (pystr \<times> real) list" where
  "qa_idf_table all_texts = (case qa_compute_idf all_texts of Inl e \<Rightarrow> [] | Inr idf \<Rightarrow> idf)"

text \<open>
  The pairs that the nested loops append, in the order in which they append them.
\<close>

definition retained_pairs ::
  "(pystr \<times> real) list list \<Rightarrow> real \<Rightarrow> (nat \<times> nat \<times> real) list" where
  "retained_pairs vectors threshold =
     concat (map (\<lambda>i.
         map (\<lambda>j. (i, j, cosine_value (vectors ! i) (vectors ! j)))
           (filter (\<lambda>j. threshold \<le> cosine_value (vectors ! i) (vectors ! j))
              [i + 1 ..< length vectors]))
       [0 ..< length vectors])"

text \<open>
  The order of the result: by similarity, the larger first, and pairs of equal similarity
  in document order (by the first index, then by the second).
\<close>

definition ranked_before :: "nat \<times> nat \<times> real \<Rightarrow> nat \<times> nat \<times> real \<Rightarrow> bool" where
  "ranked_before p q =
     (case p of (i, j, s) \<Rightarrow> case q of (i', j', s') \<Rightarrow>
        s' < s \<or> (s' = s \<and> (i < i' \<or> (i = i' \<and> j < j'))))"

text \<open>Document order alone: by the first index, then by the second.\<close>

definition document_order :: "nat \<times> nat \<times> real \<Rightarrow> nat \<times> nat \<times> real \<Rightarrow> bool" where
  "document_order p q =
     (case p of (i, j, s) \<Rightarrow> case q of (i', j', s') \<Rightarrow> i < i' \<or> (i = i' \<and> j < j'))"

text \<open>
  The questions with the vectors that \<open>find_similar_questions_in_file\<close> and
  \<open>find_duplicates\<close> store in them.
\<close>

definition with_vectors :: "question list \<Rightarrow> question list" where
  "with_vectors questions =
     map (\<lambda>q. q\<lparr>q_vector := tfidf_value (q_text q) (idf_table (map q_text questions))\<rparr>)
       questions"

definition qa_with_vectors :: "(pystr \<Rightarrow> pystr) \<Rightarrow> qa_question list \<Rightarrow> qa_question list" where
  "qa_with_vectors lower questions =
     (let cleaned = map (\<lambda>q. q\<lparr>qa_clean_text := clean_text lower (qa_full_text q)\<rparr>) questions
      in map (\<lambda>q. q\<lparr>qa_vector :=
                     tfidf_value (qa_clean_text q) (qa_idf_table (map qa_clean_text cleaned))\<rparr>)
           cleaned)"

text \<open>Questions with a given normalized text, used to run the model on examples.\<close>

definition example_question :: "nat \<Rightarrow> pystr \<Rightarrow> question" where
  "example_question i t =
     \<lparr>q_file = str ''a.xml'', q_rel_file = str ''a.xml'', q_index = i,
      q_info = \<lparr>info_type = str ''multichoice'', info_name = [], info_text = t,
                info_answers = [], info_feedbacks = [], info_generalfeedback = []\<rparr>,
      q_text = t, q_full_text = t, q_vector = []\<rparr>"

text \<open>Analyzers that have analyzed one and two questions.\<close>

definition analyzer_of_one :: analyzer where
  "analyzer_of_one =
     analyze_question (new_analyzer 0.85) (str ''a.xml'') (str ''multichoice'') (str ''Q1'')
       (str ''abc def'') []"

definition analyzer_of_two :: analyzer where
  "analyzer_of_two =
     analyze_question analyzer_of_one (str ''b.xml'') (str ''multichoice'') (str ''Q2'')
       (str ''abc def'') []"

section \<open>The pair-finding step in floating point\<close>







text \<open>
  The nested loops and the sort of \<open>find_similar_questions_in_file\<close> and of
  \<open>find_duplicates\<close>, with the function that computes a similarity as a parameter:
  \<open>similarity\<close> is \<open>cosine_similarity\<close> above in exact arithmetic and
  \<open>cosine_similarity_float\<close> in a run of the program.  \<open>pairs\<close> is the list to which the
  loops append (empty in \<open>find_similar_questions_in_file\<close>, \<open>self.duplicates\<close> in
  \<open>find_duplicates\<close>).
\<close>

fun compare_with_by ::
  "((pystr \<times> real) list \<Rightarrow> (pystr \<times> real) list \<Rightarrow> py_error + real) \<Rightarrow>
   (pystr \<times> real) list list \<Rightarrow> real \<Rightarrow> nat \<Rightarrow> nat list \<Rightarrow> (nat \<times> nat \<times> real) list \<Rightarrow>
   py_error + (nat \<times> nat \<times> real) list" where
  "compare_with_by similarity vectors threshold i [] pairs = Inr pairs"
| "compare_with_by similarity vectors threshold i (j # js) pairs =
     (case similarity (vectors ! i) (vectors ! j) of
        Inl e \<Rightarrow> Inl e
      | Inr s \<Rightarrow>
          compare_with_by similarity vectors threshold i js
            (if s \<ge> threshold then pairs @ [(i, j, s)] else pairs))"

fun compare_all_by ::
  "((pystr \<times> real) list \<Rightarrow> (pystr \<times> real) list \<Rightarrow> py_error + real) \<Rightarrow>
   (pystr \<times> real) list list \<Rightarrow> real \<Rightarrow> nat list \<Rightarrow> (nat \<times> nat \<times> real) list \<Rightarrow>
   py_error + (nat \<times> nat \<times> real) list" where
  "compare_all_by similarity vectors threshold [] pairs = Inr pairs"
| "compare_all_by similarity vectors threshold (i # rest) pairs =
     (case compare_with_by similarity vectors threshold i [i + 1 ..< length vectors] pairs of
        Inl e \<Rightarrow> Inl e
      | Inr pairs' \<Rightarrow> compare_all_by similarity vectors threshold rest pairs')"

definition pair_finding_step ::
  "((pystr \<times> real) list \<Rightarrow> (pystr \<times> real) list \<Rightarrow> py_error + real) \<Rightarrow>
   (pystr \<times> real) list list \<Rightarrow> real \<Rightarrow> (nat \<times> nat \<times> real) list \<Rightarrow>
   py_error + (nat \<times> nat \<times> real) list" where
  "pair_finding_step similarity vectors threshold pairs =
     (case compare_all_by similarity vectors threshold [0 ..< length vectors] pairs of
        Inl e \<Rightarrow> Inl e
      | Inr similar_pairs \<Rightarrow> Inr (sort_by_similarity similar_pairs))"





section \<open>The normalizer is idempotent\<close>

lemma isspace_32: "isspace 32" by (simp add: isspace_def)
lemma kept_char_32: "kept_char 32" by (simp add: kept_char_def isspace_def)

lemma list_all_kept_sub_other: "list_all kept_char (sub_other s)"
  by (auto simp: sub_other_def list_all_iff kept_char_32)

lemma sub_other_fixed: "list_all kept_char s \<Longrightarrow> sub_other s = s"
  by (simp add: sub_other_def list_all_iff map_idI)

lemma sub_spaces_kept: "list_all kept_char s \<Longrightarrow> list_all kept_char (sub_spaces s)"
proof (induction s rule: sub_spaces.induct)
  case 1
  then show ?case by simp
next
  case (2 c cs)
  have "list_all kept_char (dropWhile isspace cs)"
    using 2(3) by (auto simp: list_all_iff dest: set_dropWhileD)
  with 2 show ?case by (simp add: kept_char_32)
qed

lemma sub_spaces_only_32: "list_all (\<lambda>c. isspace c \<longrightarrow> c = 32) (sub_spaces s)"
  by (induction s rule: sub_spaces.induct) simp_all

lemma sub_spaces_hd:
  "s \<noteq> [] \<Longrightarrow> \<not> isspace (hd s) \<Longrightarrow> sub_spaces s \<noteq> [] \<and> hd (sub_spaces s) = hd s"
  by (cases s) simp_all

lemma sub_spaces_single:
  "successively (\<lambda>a b. \<not> (isspace a \<and> isspace b)) (sub_spaces s)"
proof (induction s rule: sub_spaces.induct)
  case 1
  then show ?case by simp
next
  case (2 c cs)
  show ?case
  proof (cases "isspace c")
    case True
    let ?r = "dropWhile isspace cs"
    have "sub_spaces ?r = [] \<or> \<not> isspace (hd (sub_spaces ?r))"
    proof (cases "?r = []")
      case True
      then have "sub_spaces ?r = []" by (simp only: sub_spaces.simps)
      then show ?thesis by (rule disjI1)
    next
      case False
      then have "\<not> isspace (hd ?r)" by (rule hd_dropWhile)
      with False sub_spaces_hd[of ?r] show ?thesis by simp
    qed
    with True 2 show ?thesis by (auto simp: successively_Cons)
  next
    case False
    with 2 show ?thesis by (simp add: successively_Cons)
  qed
qed

lemma sub_spaces_fixed:
  "list_all (\<lambda>c. isspace c \<longrightarrow> c = 32) s \<Longrightarrow>
   successively (\<lambda>a b. \<not> (isspace a \<and> isspace b)) s \<Longrightarrow> sub_spaces s = s"
proof (induction s rule: sub_spaces.induct)
  case 1
  then show ?case by simp
next
  case (2 c cs)
  show ?case
  proof (cases "isspace c")
    case True
    from 2(4) True have "cs = [] \<or> \<not> isspace (hd cs)"
      by (auto simp: successively_Cons)
    then have d: "dropWhile isspace cs = cs"
      by (cases cs) auto
    from 2(4) have "successively (\<lambda>a b. \<not> (isspace a \<and> isspace b)) cs"
      by (auto simp: successively_Cons)
    with 2(1)[OF True] 2(3) d True show ?thesis by simp
  next
    case False
    from 2(4) have "successively (\<lambda>a b. \<not> (isspace a \<and> isspace b)) cs"
      by (auto simp: successively_Cons)
    with 2(2)[OF False] 2(3) False show ?thesis by simp
  qed
qed

lemma set_strip: "set (strip s) \<subseteq> set s"
  unfolding strip_def by (auto dest!: set_dropWhileD)

lemma successively_dropWhile:
  "successively R s \<Longrightarrow> successively R (dropWhile P s)"
  using successively_append_iff[of R "takeWhile P s" "dropWhile P s"] by simp

lemma successively_rev_sym:
  assumes "\<And>a b. R a b = R b a"
  shows "successively R (rev s) = successively R s"
proof -
  have "(\<lambda>x y. R y x) = R"
    using assms by (intro ext) blast
  then show ?thesis by (simp only: successively_rev)
qed

lemma successively_strip:
  assumes "successively (\<lambda>a b. \<not> (isspace a \<and> isspace b)) s"
  shows "successively (\<lambda>a b. \<not> (isspace a \<and> isspace b)) (strip s)"
proof -
  let ?R = "\<lambda>a b. \<not> (isspace a \<and> isspace b)"
  have sym: "\<And>xs. successively ?R (rev xs) = successively ?R xs"
    by (rule successively_rev_sym) blast
  have "successively ?R (dropWhile isspace s)"
    using assms by (rule successively_dropWhile)
  then have "successively ?R (rev (dropWhile isspace s))"
    by (simp only: sym)
  then have "successively ?R (dropWhile isspace (rev (dropWhile isspace s)))"
    by (rule successively_dropWhile)
  then show ?thesis
    unfolding strip_def by (simp only: sym)
qed

lemma dropWhile_self: "s = [] \<or> \<not> P (hd s) \<Longrightarrow> dropWhile P s = s"
  by (cases s) auto

lemma strip_strip: "strip (strip s) = strip s"
proof -
  let ?ys = "dropWhile isspace s"
  let ?ws = "dropWhile isspace (rev ?ys)"
  have ws: "strip s = rev ?ws" by (simp add: strip_def)
  have "rev ?ws = [] \<or> \<not> isspace (hd (rev ?ws))"
  proof (cases "?ws = []")
    case True
    then show ?thesis by simp
  next
    case False
    have ne: "?ys \<noteq> []"
    proof
      assume "?ys = []"
      then have "?ws = []" by (simp only: rev.simps dropWhile.simps)
      with False show False by blast
    qed
    have "rev ?ys = takeWhile isspace (rev ?ys) @ ?ws" by simp
    then have "last (rev ?ys) = last ?ws"
      using False by (metis last_appendR)
    then have "hd (rev ?ws) = hd ?ys"
      using False ne by (simp add: hd_rev last_rev)
    moreover have "\<not> isspace (hd ?ys)" using ne hd_dropWhile by blast
    ultimately show ?thesis by simp
  qed
  then have "dropWhile isspace (rev ?ws) = rev ?ws" by (rule dropWhile_self)
  then show ?thesis
    unfolding ws by (simp add: strip_def)
qed

lemma clean_text_normal: "list_all normal_char (clean_text lower s)"
proof -
  let ?t = "sub_spaces (sub_other (lower s))"
  have "list_all kept_char ?t"
    by (rule sub_spaces_kept) (rule list_all_kept_sub_other)
  moreover have "list_all (\<lambda>c. isspace c \<longrightarrow> c = 32) ?t"
    by (rule sub_spaces_only_32)
  ultimately have "list_all normal_char ?t"
    by (simp add: list_all_iff normal_char_def)
  then show ?thesis
    unfolding clean_text_def using set_strip[of ?t] by (auto simp: list_all_iff)
qed

lemma clean_text_single:
  "successively (\<lambda>a b. \<not> (isspace a \<and> isspace b)) (clean_text lower s)"
  unfolding clean_text_def by (rule successively_strip) (rule sub_spaces_single)

text \<open>
  C9: the text normalizer is idempotent: \<open>clean_text(clean_text(s)) = clean_text(s)\<close> for
  every string \<open>s\<close>, with any \<open>str.lower\<close> that leaves lower-case letters, digits and
  spaces as they are (as Python's does).
\<close>

theorem clean_text_idempotent:
  assumes "lower_fixes_normal lower"
  shows "clean_text lower (clean_text lower s) = clean_text lower s"
proof -
  let ?r = "clean_text lower s"
  have n: "list_all normal_char ?r" by (rule clean_text_normal)
  have l: "lower ?r = ?r"
    using assms n by (simp add: lower_fixes_normal_def)
  have k: "sub_other ?r = ?r"
    using n by (intro sub_other_fixed) (simp add: list_all_iff normal_char_def)
  have sp: "sub_spaces ?r = ?r"
    using n clean_text_single[of lower s]
    by (intro sub_spaces_fixed) (simp_all add: list_all_iff normal_char_def)
  have st: "strip ?r = ?r"
    unfolding clean_text_def by (rule strip_strip)
  have "clean_text lower ?r = strip (sub_spaces (sub_other (lower ?r)))"
    by (simp only: clean_text_def)
  also have "\<dots> = ?r" by (simp only: l k sp st)
  finally show ?thesis .
qed

lemma upper_not_space: "65 \<le> c \<Longrightarrow> c \<le> 90 \<Longrightarrow> \<not> isspace c"
  by (simp add: isspace_def)

lemma normal_char_not_upper: "normal_char c \<Longrightarrow> \<not> (65 \<le> c \<and> c \<le> 90)"
  using upper_not_space[of c] by (auto simp: normal_char_def kept_char_def)

lemma ascii_lower_fixes_normal: "lower_fixes_normal ascii_lower"
  unfolding lower_fixes_normal_def
proof (intro allI impI)
  fix s :: pystr
  assume "list_all normal_char s"
  then have "\<forall>c\<in>set s. \<not> (65 \<le> c \<and> c \<le> 90)"
    unfolding list_all_iff by (blast dest: normal_char_not_upper)
  then show "ascii_lower s = s"
    unfolding ascii_lower_def by (intro map_idI) simp
qed

lemma clean_text_example: "clean_text ascii_lower (str ''  Hola,  MUNDO! '') = str ''hola mundo''"
  by (simp add: clean_text_def ascii_lower_def sub_other_def strip_def str_def kept_char_def isspace_def)

theorem clean_text_idempotent_witness:
  "lower_fixes_normal ascii_lower \<and>
   clean_text ascii_lower (str ''  Hola,  MUNDO! '') = str ''hola mundo'' \<and>
   clean_text ascii_lower (clean_text ascii_lower (str ''  Hola,  MUNDO! '')) =
     clean_text ascii_lower (str ''  Hola,  MUNDO! '')"
  by (intro conjI ascii_lower_fixes_normal clean_text_example
        clean_text_idempotent [OF ascii_lower_fixes_normal])

section \<open>Term frequencies and the keys of a vector\<close>

lemma for_each_Inr:
  "(\<And>x. x \<in> set xs \<Longrightarrow> f x = Inr (g x)) \<Longrightarrow> for_each f xs = Inr (map g xs)"
  by (induction xs) simp_all

lemma map_of_incr: "map_of (incr w d) = (map_of d)(w \<mapsto> dict_get d w 0 + 1)"
  by (induction w d rule: incr.induct) (auto simp: dict_get_def fun_eq_iff)

lemma keys_incr: "fst ` set (incr w d) = insert w (fst ` set d)"
  by (induction w d rule: incr.induct) auto

lemma distinct_incr: "distinct (map fst d) \<Longrightarrow> distinct (map fst (incr w d))"
  by (induction w d rule: incr.induct) (auto simp: keys_incr)

lemma incr_pos: "\<forall>p\<in>set d. 0 < snd p \<Longrightarrow> \<forall>p\<in>set (incr w d). 0 < snd p"
  by (induction w d rule: incr.induct) auto

lemma keys_count_word:
  "fst ` set (count_word w d) = (if 2 < length w then insert w (fst ` set d) else fst ` set d)"
  by (simp add: count_word_def keys_incr)

lemma keys_fold_count_word:
  "fst ` set (fold count_word ws d) = fst ` set d \<union> {w \<in> set ws. 2 < length w}"
  by (induction ws arbitrary: d) (auto simp: keys_count_word split: if_splits)

lemma distinct_fold_count_word:
  "distinct (map fst d) \<Longrightarrow> distinct (map fst (fold count_word ws d))"
  by (induction ws arbitrary: d) (simp_all add: count_word_def distinct_incr)

lemma pos_fold_count_word:
  "\<forall>p\<in>set d. 0 < snd p \<Longrightarrow> \<forall>p\<in>set (fold count_word ws d). 0 < snd p"
proof (induction ws arbitrary: d)
  case Nil
  then show ?case by simp
next
  case (Cons v ws)
  have "\<forall>p\<in>set (count_word v d). 0 < snd p"
    unfolding count_word_def using Cons.prems incr_pos[of d v] by simp
  from Cons.IH[OF this] show ?case by simp
qed

lemma dict_get_count_word:
  "dict_get (count_word v d) w 0 = dict_get d w 0 + (if v = w \<and> 2 < length w then 1 else 0)"
  by (simp add: count_word_def dict_get_def map_of_incr)

lemma dict_get_fold_count_word:
  "distinct ws \<Longrightarrow>
   dict_get (fold count_word ws d) w 0 =
     dict_get d w 0 + (if w \<in> set ws \<and> 2 < length w then 1 else 0)"
proof (induction ws arbitrary: d)
  case Nil
  then show ?case by simp
next
  case (Cons v ws)
  then show ?case by (auto simp: dict_get_count_word)
qed

lemma compute_word_freq_keys:
  "fst ` set (compute_word_freq text) = {w \<in> set (split_ws text). 2 < length w}"
  by (simp add: compute_word_freq_def keys_fold_count_word)

lemma compute_word_freq_distinct: "distinct (map fst (compute_word_freq text))"
  by (simp add: compute_word_freq_def distinct_fold_count_word)

lemma compute_word_freq_pos: "\<forall>p\<in>set (compute_word_freq text). 0 < snd p"
  unfolding compute_word_freq_def by (rule pos_fold_count_word) simp

lemma sum_list_pos_nat:
  "d \<noteq> [] \<Longrightarrow> \<forall>p\<in>set d. (0::nat) < snd p \<Longrightarrow> 0 < sum_list (map snd d)"
  by (cases d) auto

lemma tf_loop:
  "t \<noteq> 0 \<Longrightarrow>
   for_each (\<lambda>(word, count).
      case py_truediv (real count) (real t) of
        Inl e \<Rightarrow> Inl e
      | Inr tf \<Rightarrow> Inr (word, tf * g word)) freq =
   Inr (map (\<lambda>(word, count). (word, real count / real t * g word)) freq)"
  by (intro for_each_Inr) (auto simp: py_truediv_def)

lemma compute_tfidf_vector_Inr:
  "compute_tfidf_vector text idf =
     Inr (let freq = compute_word_freq text; total_words = sum_list (map snd freq)
          in map (\<lambda>(word, count). (word, real count / real total_words * dict_get idf word 0))
               freq)"
proof -
  let ?freq = "compute_word_freq text"
  let ?total = "sum_list (map snd ?freq)"
  show ?thesis
  proof (cases "?total = 0")
    case True
    have "?freq = []"
    proof (rule ccontr)
      assume "?freq \<noteq> []"
      from sum_list_pos_nat[OF this compute_word_freq_pos] True show False by simp
    qed
    then show ?thesis by (simp add: compute_tfidf_vector_def)
  next
    case False
    show ?thesis
      unfolding compute_tfidf_vector_def Let_def
      by (simp only: False if_False tf_loop[OF False])
  qed
qed

lemma compute_tfidf_vector_keys:
  "compute_tfidf_vector text idf = Inr v \<Longrightarrow> map fst v = map fst (compute_word_freq text)"
  unfolding compute_tfidf_vector_Inr by (auto simp: Let_def case_prod_unfold)

lemma split_example: "split_ws (str ''el gato come el pescado gato'') =
   [str ''el'', str ''gato'', str ''come'', str ''el'', str ''pescado'', str ''gato'']"
  by (simp add: str_def isspace_def)

lemma freq_example: "compute_word_freq (str ''el gato come el pescado gato'') =
   [(str ''gato'', 2), (str ''come'', 1), (str ''pescado'', 1)]"
  unfolding compute_word_freq_def split_example by (simp add: count_word_def str_def)

text \<open>
  C10: every key of the mapping returned by \<open>compute_word_freq\<close> has at least three
  characters and a count of at least one, and \<open>compute_tfidf_vector\<close> returns (without
  error) a vector whose keys are keys of that frequency mapping.
\<close>

theorem word_freq_and_vector_keys:
  "(\<forall>(word, count)\<in>set (compute_word_freq text). 3 \<le> length word \<and> 1 \<le> count) \<and>
   (\<exists>v. compute_tfidf_vector text idf = Inr v \<and>
        set (map fst v) \<subseteq> set (map fst (compute_word_freq text)))"
proof (intro conjI)
  show "\<forall>(word, count)\<in>set (compute_word_freq text). 3 \<le> length word \<and> 1 \<le> count"
  proof (clarify, intro conjI)
    fix word count
    assume m: "(word, count) \<in> set (compute_word_freq text)"
    then have "word \<in> fst ` set (compute_word_freq text)" by force
    then show "3 \<le> length word" unfolding compute_word_freq_keys by simp
    from m compute_word_freq_pos[of "text"] have "0 < snd (word, count)" by blast
    then show "1 \<le> count" by simp
  qed
next
  obtain v where v: "compute_tfidf_vector text idf = Inr v"
    using compute_tfidf_vector_Inr by blast
  have "set (map fst v) \<subseteq> set (map fst (compute_word_freq text))"
    unfolding compute_tfidf_vector_keys[OF v] by (rule subset_refl)
  with v
  show "\<exists>v. compute_tfidf_vector text idf = Inr v \<and>
        set (map fst v) \<subseteq> set (map fst (compute_word_freq text))"
    by blast
qed

theorem word_freq_and_vector_keys_witness:
  "compute_word_freq (str ''el gato come el pescado gato'') =
     [(str ''gato'', 2), (str ''come'', 1), (str ''pescado'', 1)] \<and>
   (\<exists>v. compute_tfidf_vector (str ''el gato come el pescado gato'') [] = Inr v \<and>
        set (map fst v) \<subseteq> {str ''gato'', str ''come'', str ''pescado''})"
  using word_freq_and_vector_keys [of "str ''el gato come el pescado gato''" "[]"]
  by (simp add: freq_example)

section \<open>The display name and the assembled text\<close>

lemma get_question_full_text_name:
  "get_question_full_text (info\<lparr>info_name := n\<rparr>) = get_question_full_text info"
  by (simp add: get_question_full_text_def Let_def)

lemma load_questions_text_name_aux:
  "map q_text (concat (map (\<lambda>(i, info).
       if info_type info = str ''category'' then []
       else (let full_text = get_question_full_text info;
                 clean = clean_text lower full_text
             in if clean \<noteq> []
                then [\<lparr>q_file = file, q_rel_file = rel_file, q_index = i, q_info = info,
                       q_text = clean, q_full_text = full_text, q_vector = []\<rparr>]
                else []))
       (enumerate k (map (\<lambda>info. info\<lparr>info_name := g info\<rparr>) infos)))) =
   map q_text (concat (map (\<lambda>(i, info).
       if info_type info = str ''category'' then []
       else (let full_text = get_question_full_text info;
                 clean = clean_text lower full_text
             in if clean \<noteq> []
                then [\<lparr>q_file = file, q_rel_file = rel_file, q_index = i, q_info = info,
                       q_text = clean, q_full_text = full_text, q_vector = []\<rparr>]
                else []))
       (enumerate k infos)))"
  by (induction infos arbitrary: k) (simp_all add: Let_def get_question_full_text_name)

lemma load_questions_text_name:
  "map q_text (load_questions_from_file lower file rel_file
      (map (\<lambda>info. info\<lparr>info_name := g info\<rparr>) infos)) =
   map q_text (load_questions_from_file lower file rel_file infos)"
  unfolding load_questions_from_file_def by (rule load_questions_text_name_aux)

text \<open>
  C2 (as amended): \<open>get_question_full_text\<close> of \<open>find_similar_questions.py\<close> does not
  depend on the display name, and neither do the normalized texts of the questions that
  \<open>load_questions_from_file\<close> returns; the \<open>full_text\<close> that \<open>analyze_question\<close> of
  \<open>evaluate_questions_directory.py\<close> stores is the display name, the prompt and the joined
  answers, separated by single spaces, so it starts with the display name.
\<close>

theorem full_text_and_name:
  "get_question_full_text (info\<lparr>info_name := n\<rparr>) = get_question_full_text info \<and>
   map q_text (load_questions_from_file lower path rel_path
      (map (\<lambda>info. info\<lparr>info_name := g info\<rparr>) infos)) =
   map q_text (load_questions_from_file lower path rel_path infos) \<and>
   (q_type \<noteq> str ''category'' \<longrightarrow>
      (\<exists>q. all_questions (analyze_question a filepath q_type name prompt answer_texts) =
             all_questions a @ [q] \<and>
           qa_full_text q = name @ [32] @ prompt @ [32] @ join [32] answer_texts \<and>
           take (length name) (qa_full_text q) = name))"
  by (simp add: get_question_full_text_name load_questions_text_name analyze_question_def)

lemma category_example: "str ''multichoice'' \<noteq> str ''category''"
  by (simp add: str_def)

theorem full_text_and_name_witness:
  "str ''multichoice'' \<noteq> str ''category'' \<and>
   get_question_full_text
     \<lparr>info_type = str ''multichoice'', info_name = str ''Q2'', info_text = str ''hola'',
      info_answers = [str ''si'', str ''no''], info_feedbacks = [str ''bien''],
      info_generalfeedback = []\<rparr> = str ''hola si no bien'' \<and>
   (\<exists>q. all_questions (analyze_question (new_analyzer 0.85) (str ''a.xml'')
             (str ''multichoice'') (str ''Q1'') (str ''hola'') [str ''si'', str ''no'']) = [q] \<and>
        qa_full_text q = str ''Q1 hola si no'')"
  using full_text_and_name [where
     info = "\<lparr>info_type = str ''multichoice'', info_name = str ''Q1'', info_text = str ''hola'',
      info_answers = [str ''si'', str ''no''], info_feedbacks = [str ''bien''],
      info_generalfeedback = []\<rparr>" and n = "str ''Q2''" and lower = ascii_lower and
     path = "[]" and rel_path = "[]" and g = "\<lambda>i. []" and infos = "[]" and
     q_type = "str ''multichoice''" and a = "new_analyzer 0.85" and filepath = "str ''a.xml''" and
     name = "str ''Q1''" and prompt = "str ''hola''" and answer_texts = "[str ''si'', str ''no'']"]
  by (auto simp: get_question_full_text_def new_analyzer_def str_def)

text \<open>
  In \<open>evaluate_questions_directory.py\<close> two questions that differ in their display name
  only have different full texts: the name is part of the text.
\<close>

theorem full_text_name_counterexample:
  "qa_full_text (hd (all_questions (analyze_question (new_analyzer 0.85) (str ''a.xml'')
      (str ''multichoice'') (str ''Q1'') (str ''hola'') [str ''si'', str ''no'']))) =
     str ''Q1 hola si no'' \<and>
   qa_full_text (hd (all_questions (analyze_question (new_analyzer 0.85) (str ''a.xml'')
      (str ''multichoice'') (str ''Q2'') (str ''hola'') [str ''si'', str ''no'']))) =
     str ''Q2 hola si no'' \<and>
   str ''Q1 hola si no'' \<noteq> str ''Q2 hola si no''"
  by (simp add: analyze_question_def new_analyzer_def str_def)

section \<open>Document counts and IDF weights\<close>

lemma dict_get_in_set:
  "distinct (map fst d) \<Longrightarrow> (k, c) \<in> set d \<Longrightarrow> dict_get d k dflt = c"
  by (simp add: dict_get_def)

lemma map_of_key:
  "distinct (map fst d) \<Longrightarrow> k \<in> fst ` set d \<Longrightarrow> map_of d k = Some (dict_get d k dflt)"
  by (auto simp: dict_get_def)

lemma count_documents_keys_aux:
  "fst ` set (fold (\<lambda>text dc. fold count_word (remdups (split_ws text)) dc) texts d) =
     fst ` set d \<union> {w. 2 < length w \<and> (\<exists>t\<in>set texts. w \<in> set (split_ws t))}"
  by (induction texts arbitrary: d) (auto simp: keys_fold_count_word)

lemma count_documents_distinct_aux:
  "distinct (map fst d) \<Longrightarrow>
   distinct (map fst (fold (\<lambda>text dc. fold count_word (remdups (split_ws text)) dc) texts d))"
  by (induction texts arbitrary: d) (simp_all add: distinct_fold_count_word)

lemma count_documents_get_aux:
  "dict_get (fold (\<lambda>text dc. fold count_word (remdups (split_ws text)) dc) texts d) w 0 =
     dict_get d w 0 + (if 2 < length w then document_frequency texts w else 0)"
  by (induction texts arbitrary: d)
     (simp_all add: dict_get_fold_count_word document_frequency_def)

lemma count_documents_keys:
  "fst ` set (count_documents texts) =
     {w. 2 < length w \<and> (\<exists>t\<in>set texts. w \<in> set (split_ws t))}"
  by (simp add: count_documents_def count_documents_keys_aux)

lemma count_documents_distinct: "distinct (map fst (count_documents texts))"
  by (simp add: count_documents_def count_documents_distinct_aux)

lemma count_documents_get:
  "dict_get (count_documents texts) w 0 =
     (if 2 < length w then document_frequency texts w else 0)"
  unfolding count_documents_def count_documents_get_aux by (simp add: dict_get_def)

lemma document_frequency_le: "document_frequency texts w \<le> length texts"
  by (simp add: document_frequency_def)

lemma document_frequency_pos:
  "t \<in> set texts \<Longrightarrow> w \<in> set (split_ws t) \<Longrightarrow> 0 < document_frequency texts w"
  by (auto simp: document_frequency_def filter_empty_conv)

lemma count_documents_entry:
  assumes "(w, c) \<in> set (count_documents texts)"
  shows "2 < length w" and "c = document_frequency texts w" and "0 < c" and "c \<le> length texts"
proof -
  from assms have "w \<in> fst ` set (count_documents texts)" by force
  then have k: "2 < length w \<and> (\<exists>t\<in>set texts. w \<in> set (split_ws t))"
    unfolding count_documents_keys by simp
  then show "2 < length w" by simp
  from dict_get_in_set[OF count_documents_distinct assms, of 0] k
  show c: "c = document_frequency texts w"
    by (simp add: count_documents_get)
  from k document_frequency_pos c show "0 < c" by blast
  from c document_frequency_le show "c \<le> length texts" by simp
qed

lemma count_documents_lookup:
  assumes "t \<in> set texts" and "w \<in> set (split_ws t)" and "2 < length w"
  shows "map_of (count_documents texts) w = Some (document_frequency texts w)"
proof -
  from assms have "w \<in> fst ` set (count_documents texts)"
    unfolding count_documents_keys by blast
  from map_of_key[OF count_documents_distinct this, of 0] assms(3)
  show ?thesis by (simp add: count_documents_get)
qed

lemma compute_idf_Inr:
  "compute_idf texts =
     Inr (map (\<lambda>(w, c). (w, ln (real (length texts + 1) / real (c + 1)) + 1))
            (count_documents texts))"
  unfolding compute_idf_def Let_def
  by (intro for_each_Inr) (auto simp: py_truediv_def math_log_def divide_le_0_iff)

lemma qa_compute_idf_Inr:
  "qa_compute_idf texts =
     Inr (map (\<lambda>(w, c). (w, ln (real (length texts) / real (1 + c))))
            (count_documents texts))"
  unfolding qa_compute_idf_def Let_def
proof (intro for_each_Inr)
  fix x
  assume x: "x \<in> set (count_documents texts)"
  obtain w c where wc: "x = (w, c)" by (cases x)
  from x wc have "(w, c) \<in> set (count_documents texts)" by simp
  from count_documents_entry(3)[OF this] count_documents_entry(4)[OF this]
  have "0 < length texts" by (rule less_le_trans)
  then show "(case x of (word, count) \<Rightarrow>
            case py_truediv (real (length texts)) (real (1 + count)) of
              Inl e \<Rightarrow> Inl e
            | Inr q \<Rightarrow> (case math_log q of Inl e \<Rightarrow> Inl e | Inr l \<Rightarrow> Inr (word, l))) =
          Inr (case x of (w, c) \<Rightarrow> (w, ln (real (length texts) / real (1 + c))))"
    by (simp add: wc py_truediv_def math_log_def divide_le_0_iff)
qed

lemma smoothed_idf_ge_1:
  assumes "c \<le> n"
  shows "1 \<le> ln (real (n + 1) / real (c + 1)) + 1"
proof -
  from assms have "1 \<le> real (n + 1) / real (c + 1)" by simp
  then have "0 \<le> ln (real (n + 1) / real (c + 1))" by (rule ln_ge_zero)
  then show ?thesis by simp
qed




lemma split_abc: "split_ws (str ''abc'') = [str ''abc'']"
  by (simp add: str_def isspace_def)





section \<open>Cosine similarity: totality and bounds\<close>

lemma getitem_key: "k \<in> fst ` set d \<Longrightarrow> getitem d k = Inr (dict_get d k dflt)"
proof -
  assume "k \<in> fst ` set d"
  then obtain v where "map_of d k = Some v"
    by (metis domD dom_map_of_conv_image_fst)
  then show ?thesis by (simp add: getitem_def dict_get_def)
qed

lemma set_common_keys: "set (common_keys v1 v2) = fst ` set v1 \<inter> fst ` set v2"
  by (auto simp: common_keys_def)

lemma distinct_common_keys: "distinct (common_keys v1 v2)"
  by (simp add: common_keys_def)

lemma products_Inr:
  "for_each (\<lambda>word.
      case getitem vec1 word of
        Inl e \<Rightarrow> Inl e
      | Inr x \<Rightarrow> (case getitem vec2 word of Inl e \<Rightarrow> Inl e | Inr y \<Rightarrow> Inr (x * y)))
     (common_keys vec1 vec2) =
   Inr (map (\<lambda>w. dict_get vec1 w 0 * dict_get vec2 w 0) (common_keys vec1 vec2))"
proof (intro for_each_Inr)
  fix x
  assume "x \<in> set (common_keys vec1 vec2)"
  then have "x \<in> fst ` set vec1" and "x \<in> fst ` set vec2"
    by (simp_all add: set_common_keys)
  then show "(case getitem vec1 x of
        Inl e \<Rightarrow> Inl e
      | Inr xa \<Rightarrow> (case getitem vec2 x of Inl e \<Rightarrow> Inl e | Inr y \<Rightarrow> Inr (xa * y))) =
     Inr (dict_get vec1 x 0 * dict_get vec2 x 0)"
    by (simp add: getitem_key[where dflt = 0])
qed

lemma sum_squares_nonneg: "0 \<le> sum_list (map (\<lambda>(k, val). val\<^sup>2) (vec :: ('k \<times> real) list))"
  by (induction vec) auto

lemma math_sqrt_squares:
  "math_sqrt (sum_list (map (\<lambda>(k, val). val\<^sup>2) vec)) = Inr (magnitude vec)"
  using sum_squares_nonneg[of vec] by (simp add: math_sqrt_def magnitude_def)

lemma cosine_similarity_Inr:
  "cosine_similarity vec1 vec2 =
     Inr (if vec1 = [] \<or> vec2 = [] \<or> common_keys vec1 vec2 = [] \<or>
             magnitude vec1 = 0 \<or> magnitude vec2 = 0
          then 0
          else dot_value vec1 vec2 / (magnitude vec1 * magnitude vec2))"
  unfolding cosine_similarity_def common_keys_def[symmetric]
  by (simp add: products_Inr math_sqrt_squares Let_def dot_value_def py_truediv_def)

lemma cosine_similarity_value: "cosine_similarity vec1 vec2 = Inr (cosine_value vec1 vec2)"
  by (simp add: cosine_value_def cosine_similarity_Inr)

lemma cosine_value_eq:
  "cosine_value vec1 vec2 =
     (if vec1 = [] \<or> vec2 = [] \<or> common_keys vec1 vec2 = [] \<or>
         magnitude vec1 = 0 \<or> magnitude vec2 = 0
      then 0
      else dot_value vec1 vec2 / (magnitude vec1 * magnitude vec2))"
  by (simp add: cosine_value_def cosine_similarity_Inr)

lemma cosine_empty: "cosine_similarity [] v = Inr 0" "cosine_similarity v [] = Inr 0"
  by (simp_all add: cosine_similarity_def)


lemma cauchy_schwarz_2:
  fixes a b c d :: real
  shows "a * c + b * d \<le> sqrt (a\<^sup>2 + b\<^sup>2) * sqrt (c\<^sup>2 + d\<^sup>2)"
proof -
  have "(a\<^sup>2 + b\<^sup>2) * (c\<^sup>2 + d\<^sup>2) - (a * c + b * d)\<^sup>2 = (a * d - b * c)\<^sup>2"
    by (simp add: power2_eq_square algebra_simps)
  then have "(a * c + b * d)\<^sup>2 \<le> (a\<^sup>2 + b\<^sup>2) * (c\<^sup>2 + d\<^sup>2)"
    using zero_le_power2[of "a * d - b * c"] by linarith
  then have "sqrt ((a * c + b * d)\<^sup>2) \<le> sqrt ((a\<^sup>2 + b\<^sup>2) * (c\<^sup>2 + d\<^sup>2))"
    by (rule real_sqrt_le_mono)
  then have "\<bar>a * c + b * d\<bar> \<le> sqrt (a\<^sup>2 + b\<^sup>2) * sqrt (c\<^sup>2 + d\<^sup>2)"
    by (simp add: real_sqrt_mult)
  then show ?thesis by linarith
qed

lemma cauchy_schwarz_sum:
  fixes f g :: "'a \<Rightarrow> real"
  assumes "finite A"
  shows "\<bar>\<Sum>i\<in>A. f i * g i\<bar> \<le> sqrt (\<Sum>i\<in>A. (f i)\<^sup>2) * sqrt (\<Sum>i\<in>A. (g i)\<^sup>2)"
  using assms
proof (induction A rule: finite_induct)
  case empty
  then show ?case by simp
next
  case (insert x F)
  let ?S = "\<Sum>i\<in>F. f i * g i"
  let ?P = "\<Sum>i\<in>F. (f i)\<^sup>2"
  let ?Q = "\<Sum>i\<in>F. (g i)\<^sup>2"
  have P: "0 \<le> ?P" and Q: "0 \<le> ?Q" by (simp_all add: sum_nonneg)
  have "\<bar>f x * g x + ?S\<bar> \<le> \<bar>f x\<bar> * \<bar>g x\<bar> + \<bar>?S\<bar>"
    by (metis abs_mult abs_triangle_ineq)
  also have "\<dots> \<le> \<bar>f x\<bar> * \<bar>g x\<bar> + sqrt ?P * sqrt ?Q"
    using insert.IH by simp
  also have "\<dots> \<le> sqrt (\<bar>f x\<bar>\<^sup>2 + (sqrt ?P)\<^sup>2) * sqrt (\<bar>g x\<bar>\<^sup>2 + (sqrt ?Q)\<^sup>2)"
    by (rule cauchy_schwarz_2)
  also have "\<dots> = sqrt ((f x)\<^sup>2 + ?P) * sqrt ((g x)\<^sup>2 + ?Q)"
    using P Q by simp
  finally show ?case
    using insert.hyps by simp
qed

lemma dict_get_Cons_other: "k' \<noteq> k \<Longrightarrow> dict_get ((k, x) # d) k' dflt = dict_get d k' dflt"
  by (simp add: dict_get_def)

lemma sum_list_alist:
  fixes h :: "'v \<Rightarrow> real"
  assumes "distinct (map fst d)"
  shows "sum_list (map (\<lambda>(k, x). h x) d) = (\<Sum>k\<in>fst ` set d. h (dict_get d k dflt))"
  using assms
proof (induction d)
  case Nil
  then show ?case by simp
next
  case (Cons p d)
  obtain k x where p: "p = (k, x)" by (cases p)
  from Cons.prems p have k: "k \<notin> fst ` set d" and dd: "distinct (map fst d)" by auto
  have "(\<Sum>k'\<in>fst ` set d. h (dict_get ((k, x) # d) k' dflt)) =
        (\<Sum>k'\<in>fst ` set d. h (dict_get d k' dflt))"
  proof (intro sum.cong refl)
    fix k'
    assume "k' \<in> fst ` set d"
    with k have "k' \<noteq> k" by blast
    then show "h (dict_get ((k, x) # d) k' dflt) = h (dict_get d k' dflt)"
      by (simp add: dict_get_Cons_other)
  qed
  with Cons.IH[OF dd] k show ?case
    by (simp add: p dict_get_def)
qed

lemma magnitude_sum:
  "distinct (map fst v) \<Longrightarrow> magnitude v = sqrt (\<Sum>k\<in>fst ` set v. (dict_get v k 0)\<^sup>2)"
  unfolding magnitude_def using sum_list_alist[of v "\<lambda>x. x\<^sup>2" 0] by simp

lemma dot_value_sum:
  "dot_value v1 v2 = (\<Sum>k\<in>fst ` set v1 \<inter> fst ` set v2. dict_get v1 k 0 * dict_get v2 k 0)"
  unfolding dot_value_def
  by (simp add: sum_list_distinct_conv_sum_set distinct_common_keys set_common_keys)

lemma dot_value_le_magnitudes:
  assumes "distinct (map fst v1)" and "distinct (map fst v2)"
  shows "\<bar>dot_value v1 v2\<bar> \<le> magnitude v1 * magnitude v2"
proof -
  let ?K = "fst ` set v1 \<inter> fst ` set v2"
  let ?f = "\<lambda>k. dict_get v1 k 0" and ?g = "\<lambda>k. dict_get v2 k 0"
  have "\<bar>dot_value v1 v2\<bar> \<le> sqrt (\<Sum>k\<in>?K. (?f k)\<^sup>2) * sqrt (\<Sum>k\<in>?K. (?g k)\<^sup>2)"
    unfolding dot_value_sum by (rule cauchy_schwarz_sum) simp
  also have "\<dots> \<le> sqrt (\<Sum>k\<in>fst ` set v1. (?f k)\<^sup>2) * sqrt (\<Sum>k\<in>fst ` set v2. (?g k)\<^sup>2)"
  proof (rule mult_mono)
    show "sqrt (\<Sum>k\<in>?K. (?f k)\<^sup>2) \<le> sqrt (\<Sum>k\<in>fst ` set v1. (?f k)\<^sup>2)"
      by (intro real_sqrt_le_mono sum_mono2) auto
    show "sqrt (\<Sum>k\<in>?K. (?g k)\<^sup>2) \<le> sqrt (\<Sum>k\<in>fst ` set v2. (?g k)\<^sup>2)"
      by (intro real_sqrt_le_mono sum_mono2) auto
    show "0 \<le> sqrt (\<Sum>k\<in>fst ` set v1. (?f k)\<^sup>2)"
      by (simp add: sum_nonneg)
    show "0 \<le> sqrt (\<Sum>k\<in>?K. (?g k)\<^sup>2)"
      by (simp add: sum_nonneg)
  qed
  also have "\<dots> = magnitude v1 * magnitude v2"
    by (simp add: magnitude_sum assms)
  finally show ?thesis .
qed

lemma magnitude_nonneg: "0 \<le> magnitude v"
  unfolding magnitude_def using sum_squares_nonneg[of v] by simp

lemma cosine_value_le_1:
  assumes "distinct (map fst v1)" and "distinct (map fst v2)"
  shows "cosine_value v1 v2 \<le> 1"
proof (cases "v1 = [] \<or> v2 = [] \<or> common_keys v1 v2 = [] \<or>
    magnitude v1 = 0 \<or> magnitude v2 = 0")
  case True
  then show ?thesis by (auto simp: cosine_value_eq)
next
  case False
  then have "0 < magnitude v1" "0 < magnitude v2"
    using magnitude_nonneg[of v1] magnitude_nonneg[of v2] by auto
  then have p: "0 < magnitude v1 * magnitude v2" by simp
  have "dot_value v1 v2 \<le> magnitude v1 * magnitude v2"
    using dot_value_le_magnitudes[OF assms] by linarith
  then have "dot_value v1 v2 / (magnitude v1 * magnitude v2) \<le> 1"
    using p by (simp add: divide_le_eq)
  with False show ?thesis by (simp add: cosine_value_eq)
qed

lemma cosine_value_nonneg:
  assumes "0 \<le> dot_value v1 v2"
  shows "0 \<le> cosine_value v1 v2"
  using assms magnitude_nonneg[of v1] magnitude_nonneg[of v2]
  by (simp add: cosine_value_eq)


lemma compute_tfidf_vector_value:
  "compute_tfidf_vector text idf = Inr (tfidf_value text idf)"
  by (simp add: tfidf_value_def compute_tfidf_vector_Inr)

lemma tfidf_value_eq:
  "tfidf_value text idf =
     map (\<lambda>(word, count).
            (word, real count / real (sum_list (map snd (compute_word_freq text))) *
                   dict_get idf word 0))
       (compute_word_freq text)"
  by (simp add: tfidf_value_def compute_tfidf_vector_Inr Let_def)

lemma tfidf_value_keys: "map fst (tfidf_value text idf) = map fst (compute_word_freq text)"
  by (simp add: tfidf_value_eq case_prod_unfold)

lemma tfidf_value_distinct: "distinct (map fst (tfidf_value text idf))"
  by (simp add: tfidf_value_keys compute_word_freq_distinct)

lemma map_of_map_keyed:
  "map_of (map (\<lambda>(k, c). (k, F k c)) d) k = map_option (F k) (map_of d k)"
  by (induction d) auto

lemma dict_get_tfidf_value:
  "dict_get (tfidf_value text idf) w 0 =
     real (dict_get (compute_word_freq text) w 0) /
       real (sum_list (map snd (compute_word_freq text))) * dict_get idf w 0"
  unfolding tfidf_value_eq dict_get_def[of "map _ _"] map_of_map_keyed
  by (simp add: dict_get_def split: option.split)

lemma tfidf_dot_nonneg: "0 \<le> dot_value (tfidf_value text1 idf) (tfidf_value text2 idf)"
  unfolding dot_value_def
proof (rule sum_list_nonneg)
  fix x
  assume "x \<in> set (map (\<lambda>w. dict_get (tfidf_value text1 idf) w 0 *
                            dict_get (tfidf_value text2 idf) w 0)
                 (common_keys (tfidf_value text1 idf) (tfidf_value text2 idf)))"
  then obtain w where x: "x = dict_get (tfidf_value text1 idf) w 0 *
                            dict_get (tfidf_value text2 idf) w 0"
    by auto
  let ?a = "real (dict_get (compute_word_freq text1) w 0) /
              real (sum_list (map snd (compute_word_freq text1)))"
  let ?b = "real (dict_get (compute_word_freq text2) w 0) /
              real (sum_list (map snd (compute_word_freq text2)))"
  let ?i = "dict_get idf w 0"
  have "x = (?a * ?b) * (?i * ?i)"
    unfolding x dict_get_tfidf_value by (simp add: mult_ac)
  moreover have "0 \<le> ?a * ?b" by simp
  moreover have "0 \<le> ?i * ?i" by simp
  ultimately show "0 \<le> x" by simp
qed

lemma tfidf_cosine_bounds:
  "0 \<le> cosine_value (tfidf_value text1 idf) (tfidf_value text2 idf)"
  "cosine_value (tfidf_value text1 idf) (tfidf_value text2 idf) \<le> 1"
  by (simp_all add: cosine_value_nonneg tfidf_dot_nonneg cosine_value_le_1 tfidf_value_distinct)

text \<open>
  C4: for any two vectors that \<open>compute_tfidf_vector\<close> builds with one IDF table (whatever
  the signs of its weights), \<open>cosine_similarity\<close> returns a similarity between 0 and 1,
  over exact real arithmetic.
\<close>

theorem cosine_similarity_bounds:
  "\<exists>a b s. compute_tfidf_vector text1 idf = Inr a \<and> compute_tfidf_vector text2 idf = Inr b \<and>
     cosine_similarity a b = Inr s \<and> 0 \<le> s \<and> s \<le> 1"
  using compute_tfidf_vector_value cosine_similarity_value tfidf_cosine_bounds by blast

theorem cosine_similarity_bounds_witness:
  "\<exists>a b s. compute_tfidf_vector (str ''el gato come'') [(str ''gato'', - 1)] = Inr a \<and>
     compute_tfidf_vector (str ''el gato duerme'') [(str ''gato'', - 1)] = Inr b \<and>
     cosine_similarity a b = Inr s \<and> 0 \<le> s \<and> s \<le> 1"
  by (rule cosine_similarity_bounds)

lemma smoothed_idf_lookup:
  assumes "t \<in> set texts" and "w \<in> set (split_ws t)" and "2 < length w"
  shows "1 \<le> dict_get (map (\<lambda>(w, c). (w, ln (real (length texts + 1) / real (c + 1)) + 1))
                          (count_documents texts)) w 0"
proof -
  have "map_of (map (\<lambda>(w, c). (w, ln (real (length texts + 1) / real (c + 1)) + 1))
           (count_documents texts)) w =
        Some (ln (real (length texts + 1) / real (document_frequency texts w + 1)) + 1)"
    by (simp add: map_of_map count_documents_lookup[OF assms])
  then show ?thesis
    using smoothed_idf_ge_1[OF document_frequency_le, of texts w]
    by (simp add: dict_get_def)
qed

lemma smoothed_weights_pos:
  assumes "t \<in> set texts"
    and "(w, x) \<in> set (tfidf_value t (map (\<lambda>(w, c). (w, ln (real (length texts + 1) / real (c + 1)) + 1))
                          (count_documents texts)))"
  shows "0 < x"
proof -
  let ?idf = "map (\<lambda>(w, c). (w, ln (real (length texts + 1) / real (c + 1)) + 1))
                (count_documents texts)"
  let ?freq = "compute_word_freq t"
  from assms(2) obtain c where c: "(w, c) \<in> set ?freq"
    and x: "x = real c / real (sum_list (map snd ?freq)) * dict_get ?idf w 0"
    unfolding tfidf_value_eq by auto
  from c have "w \<in> fst ` set ?freq" by force
  then have w: "w \<in> set (split_ws t)" "2 < length w"
    unfolding compute_word_freq_keys by simp_all
  from c compute_word_freq_pos[of t] have "0 < snd (w, c)" by blast
  then have cpos: "0 < real c" by simp
  from c have "?freq \<noteq> []" by auto
  from sum_list_pos_nat[OF this compute_word_freq_pos]
  have tpos: "0 < real (sum_list (map snd ?freq))" by simp
  have "1 \<le> dict_get ?idf w 0"
    using assms(1) w by (rule smoothed_idf_lookup)
  then have "0 < dict_get ?idf w 0" by linarith
  with cpos tpos show ?thesis unfolding x by simp
qed

text \<open>
  C8: in the smoothed pipeline of \<open>find_similar_questions.py\<close>, with the IDF table built
  from the texts of the corpus, every weight of the vector of a document of the corpus is
  strictly positive, and the cosine similarity of any two such vectors lies in \<open>[0, 1]\<close>.
\<close>

theorem smoothed_pipeline_weights:
  "\<exists>idf. compute_idf all_texts = Inr idf \<and>
     (\<forall>t\<in>set all_texts. \<exists>v. compute_tfidf_vector t idf = Inr v \<and> (\<forall>(w, x)\<in>set v. 0 < x)) \<and>
     (\<forall>t1\<in>set all_texts. \<forall>t2\<in>set all_texts.
        \<exists>a b s. compute_tfidf_vector t1 idf = Inr a \<and> compute_tfidf_vector t2 idf = Inr b \<and>
          cosine_similarity a b = Inr s \<and> 0 \<le> s \<and> s \<le> 1)"
proof -
  let ?idf = "map (\<lambda>(w, c). (w, ln (real (length all_texts + 1) / real (c + 1)) + 1))
                (count_documents all_texts)"
  have 1: "compute_idf all_texts = Inr ?idf" by (rule compute_idf_Inr)
  have 2: "\<exists>v. compute_tfidf_vector t ?idf = Inr v \<and> (\<forall>(w, x)\<in>set v. 0 < x)"
    if "t \<in> set all_texts" for t
    using smoothed_weights_pos[OF that] compute_tfidf_vector_value[of t ?idf] by blast
  have 3: "\<exists>a b s. compute_tfidf_vector t1 ?idf = Inr a \<and> compute_tfidf_vector t2 ?idf = Inr b \<and>
          cosine_similarity a b = Inr s \<and> 0 \<le> s \<and> s \<le> 1" for t1 t2
    using compute_tfidf_vector_value cosine_similarity_value tfidf_cosine_bounds by blast
  from 1 2 3 show ?thesis by blast
qed


lemma freq_abc_def:
  "compute_word_freq (str ''abc def'') = [(str ''abc'', 1), (str ''def'', 1)]"
  by (simp add: compute_word_freq_def count_word_def str_def isspace_def)

theorem smoothed_pipeline_weights_witness:
  "\<exists>idf. compute_idf [str ''abc def'', str ''abc ghi''] = Inr idf \<and>
     (\<exists>v. compute_tfidf_vector (str ''abc def'') idf = Inr v \<and>
          map fst v = [str ''abc'', str ''def''] \<and> (\<forall>(w, x)\<in>set v. 0 < x)) \<and>
     (\<exists>a b s. compute_tfidf_vector (str ''abc def'') idf = Inr a \<and>
          compute_tfidf_vector (str ''abc ghi'') idf = Inr b \<and>
          cosine_similarity a b = Inr s \<and> 0 \<le> s \<and> s \<le> 1)"
proof -
  let ?c = "[str ''abc def'', str ''abc ghi'']"
  from smoothed_pipeline_weights [of ?c] obtain idf where
    1: "compute_idf ?c = Inr idf" and
    2: "\<forall>t\<in>set ?c. \<exists>v. compute_tfidf_vector t idf = Inr v \<and> (\<forall>(w, x)\<in>set v. 0 < x)" and
    3: "\<forall>t1\<in>set ?c. \<forall>t2\<in>set ?c.
        \<exists>a b s. compute_tfidf_vector t1 idf = Inr a \<and> compute_tfidf_vector t2 idf = Inr b \<and>
          cosine_similarity a b = Inr s \<and> 0 \<le> s \<and> s \<le> 1"
    by blast
  from 2 obtain v where v: "compute_tfidf_vector (str ''abc def'') idf = Inr v"
    and p: "\<forall>(w, x)\<in>set v. 0 < x"
    by auto
  from compute_tfidf_vector_keys[OF v] have k: "map fst v = [str ''abc'', str ''def'']"
    by (simp add: freq_abc_def)
  have 4: "\<exists>v. compute_tfidf_vector (str ''abc def'') idf = Inr v \<and>
          map fst v = [str ''abc'', str ''def''] \<and> (\<forall>(w, x)\<in>set v. 0 < x)"
    by (intro exI[of _ v] conjI v k p)
  from 3 have 5: "\<exists>a b s. compute_tfidf_vector (str ''abc def'') idf = Inr a \<and>
          compute_tfidf_vector (str ''abc ghi'') idf = Inr b \<and>
          cosine_similarity a b = Inr s \<and> 0 \<le> s \<and> s \<le> 1"
    by simp
  show ?thesis by (intro exI[of _ idf] conjI 1 4 5)
qed

section \<open>The pair loops and the stable sort\<close>

lemma compute_idf_table: "compute_idf texts = Inr (idf_table texts)"
  by (simp add: idf_table_def compute_idf_Inr)

lemma qa_compute_idf_table: "qa_compute_idf texts = Inr (qa_idf_table texts)"
  by (simp add: qa_idf_table_def qa_compute_idf_Inr)

lemma compare_with_Inr:
  "compare_with vs t i js acc =
     Inr (acc @ map (\<lambda>j. (i, j, cosine_value (vs ! i) (vs ! j)))
                  (filter (\<lambda>j. t \<le> cosine_value (vs ! i) (vs ! j)) js))"
  by (induction js arbitrary: acc) (simp_all add: cosine_similarity_value)

lemma compare_all_Inr:
  "compare_all vs t rows acc =
     Inr (acc @ concat (map (\<lambda>i.
         map (\<lambda>j. (i, j, cosine_value (vs ! i) (vs ! j)))
           (filter (\<lambda>j. t \<le> cosine_value (vs ! i) (vs ! j)) [i + 1 ..< length vs])) rows))"
  by (induction rows arbitrary: acc) (simp_all add: compare_with_Inr)

lemma compare_all_retained:
  "compare_all vs t [0 ..< length vs] acc = Inr (acc @ retained_pairs vs t)"
  by (simp only: compare_all_Inr retained_pairs_def)

lemma set_retained_pairs:
  "set (retained_pairs vs t) =
     {(i, j, s). i < j \<and> j < length vs \<and> s = cosine_value (vs ! i) (vs ! j) \<and> t \<le> s}"
proof (intro set_eqI iffI)
  fix p
  assume "p \<in> set (retained_pairs vs t)"
  then show "p \<in> {(i, j, s). i < j \<and> j < length vs \<and>
                  s = cosine_value (vs ! i) (vs ! j) \<and> t \<le> s}"
    by (auto simp: retained_pairs_def)
next
  fix p
  assume "p \<in> {(i, j, s). i < j \<and> j < length vs \<and>
                  s = cosine_value (vs ! i) (vs ! j) \<and> t \<le> s}"
  then obtain i j where p: "p = (i, j, cosine_value (vs ! i) (vs ! j))"
    and ij: "i < j" "j < length vs" "t \<le> cosine_value (vs ! i) (vs ! j)"
    by auto
  let ?row = "\<lambda>i. map (\<lambda>j. (i, j, cosine_value (vs ! i) (vs ! j)))
           (filter (\<lambda>j. t \<le> cosine_value (vs ! i) (vs ! j)) [i + 1 ..< length vs])"
  from ij have a: "i \<in> set [0 ..< length vs]" by simp
  from ij have b: "p \<in> set (?row i)" by (simp add: p)
  from a b have "p \<in> (\<Union>i\<in>set [0 ..< length vs]. set (?row i))" by (rule UN_I)
  then show "p \<in> set (retained_pairs vs t)"
    unfolding retained_pairs_def by (simp only: set_concat set_map image_image)
qed

lemma sorted_retained_row:
  "sorted_wrt document_order
     (map (\<lambda>j. (i, j, c j)) (filter P [a ..< b]))"
proof -
  have "sorted_wrt (<) (filter P [a ..< b])"
    by (intro sorted_wrt_filter) simp
  then show ?thesis
    by (simp add: sorted_wrt_map document_order_def)
qed

lemma sorted_retained_rows:
  "sorted_wrt (<) rows \<Longrightarrow>
   sorted_wrt document_order
     (concat (map (\<lambda>i. map (\<lambda>j. (i, j, c i j)) (filter (P i) [a i ..< b i])) rows))"
proof (induction rows)
  case Nil
  then show ?case by simp
next
  case (Cons i rows)
  then have "sorted_wrt (<) rows" and gt: "\<forall>k\<in>set rows. i < k" by simp_all
  with Cons.IH have "sorted_wrt document_order
     (concat (map (\<lambda>i. map (\<lambda>j. (i, j, c i j)) (filter (P i) [a i ..< b i])) rows))"
    by simp
  moreover have "sorted_wrt document_order (map (\<lambda>j. (i, j, c i j)) (filter (P i) [a i ..< b i]))"
    by (rule sorted_retained_row)
  moreover have "\<forall>x\<in>set (map (\<lambda>j. (i, j, c i j)) (filter (P i) [a i ..< b i])).
      \<forall>y\<in>set (concat (map (\<lambda>i. map (\<lambda>j. (i, j, c i j)) (filter (P i) [a i ..< b i])) rows)).
        document_order x y"
    using gt by (auto simp: document_order_def)
  ultimately show ?case
    by (simp only: list.map concat.simps sorted_wrt_append simp_thms)
qed

lemma sorted_retained_pairs: "sorted_wrt document_order (retained_pairs vs t)"
  unfolding retained_pairs_def by (rule sorted_retained_rows) simp

lemma sorted_wrt_insort_key_stable:
  fixes f :: "'a \<Rightarrow> 'b::linorder"
  assumes "sorted_wrt (\<lambda>a b. f a < f b \<or> (f a = f b \<and> R a b)) ys"
    and "\<forall>y\<in>set ys. R x y"
  shows "sorted_wrt (\<lambda>a b. f a < f b \<or> (f a = f b \<and> R a b)) (insort_key f x ys)"
  using assms
proof (induction ys)
  case Nil
  then show ?case by simp
next
  case (Cons y ys)
  show ?case
  proof (cases "f x \<le> f y")
    case True
    have "f x < f z \<or> (f x = f z \<and> R x z)" if "z \<in> set (y # ys)" for z
    proof -
      from that Cons.prems(1) have "f y \<le> f z" by auto
      with True have "f x \<le> f z" by simp
      moreover from that Cons.prems(2) have "R x z" by auto
      ultimately show ?thesis by auto
    qed
    with True Cons.prems(1) show ?thesis by simp
  next
    case False
    then have "f y < f x" by simp
    moreover from Cons have "sorted_wrt (\<lambda>a b. f a < f b \<or> (f a = f b \<and> R a b)) (insort_key f x ys)"
      by simp
    ultimately show ?thesis
      using False Cons.prems(1) by (auto simp: set_insort_key)
  qed
qed

lemma sorted_wrt_sort_key_stable:
  fixes f :: "'a \<Rightarrow> 'b::linorder"
  assumes "sorted_wrt R xs"
  shows "sorted_wrt (\<lambda>a b. f a < f b \<or> (f a = f b \<and> R a b)) (sort_key f xs)"
  using assms
proof (induction xs)
  case Nil
  then show ?case by simp
next
  case (Cons x xs)
  then show ?case
    by (simp add: sorted_wrt_insort_key_stable)
qed

lemma ranked_before_alt:
  "ranked_before = (\<lambda>p q. (case p of (i, j, s) \<Rightarrow> - s) < (case q of (i, j, s) \<Rightarrow> - s) \<or>
      ((case p of (i, j, s) \<Rightarrow> - s) = (case q of (i, j, s) \<Rightarrow> - s) \<and> document_order p q))"
  by (auto simp: ranked_before_def document_order_def fun_eq_iff)

lemma sorted_sort_by_similarity:
  "sorted_wrt document_order ps \<Longrightarrow> sorted_wrt ranked_before (sort_by_similarity ps)"
  unfolding ranked_before_alt sort_by_similarity_def
  by (rule sorted_wrt_sort_key_stable)

lemma set_sort_by_similarity: "set (sort_by_similarity ps) = set ps"
  by (simp add: sort_by_similarity_def)


section \<open>The two duplicate searches\<close>

lemma find_similar_questions_in_file_Inr:
  "find_similar_questions_in_file questions t =
     Inr (with_vectors questions,
          sort_by_similarity (retained_pairs (map q_vector (with_vectors questions)) t))"
proof -
  let ?idf = "idf_table (map q_text questions)"
  have "for_each (\<lambda>q. case compute_tfidf_vector (q_text q) ?idf of
                         Inl e \<Rightarrow> Inl e
                       | Inr v \<Rightarrow> Inr (q\<lparr>q_vector := v\<rparr>)) questions =
        Inr (with_vectors questions)"
    unfolding with_vectors_def
    by (intro for_each_Inr) (simp add: compute_tfidf_vector_value)
  then show ?thesis
    unfolding find_similar_questions_in_file_def Let_def
    using compare_all_retained[of "map q_vector (with_vectors questions)" t "[]"]
    by (simp add: compute_idf_table)
qed

lemma find_duplicates_Inr:
  assumes "\<not> length (all_questions a) < 2"
  shows "find_duplicates lower a =
     Inr (a\<lparr>all_questions := qa_with_vectors lower (all_questions a),
            duplicates := sort_by_similarity
              (duplicates a @
               retained_pairs (map qa_vector (qa_with_vectors lower (all_questions a)))
                 (similarity_threshold a))\<rparr>)"
proof -
  let ?cleaned = "map (\<lambda>q. q\<lparr>qa_clean_text := clean_text lower (qa_full_text q)\<rparr>)
                    (all_questions a)"
  let ?idf = "qa_idf_table (map qa_clean_text ?cleaned)"
  have "for_each (\<lambda>q. case compute_tfidf_vector (qa_clean_text q) ?idf of
                         Inl e \<Rightarrow> Inl e
                       | Inr v \<Rightarrow> Inr (q\<lparr>qa_vector := v\<rparr>)) ?cleaned =
        Inr (qa_with_vectors lower (all_questions a))"
    unfolding qa_with_vectors_def Let_def
    by (intro for_each_Inr) (simp add: compute_tfidf_vector_value)
  then show ?thesis
    unfolding find_duplicates_def Let_def
    using compare_all_retained[of "map qa_vector (qa_with_vectors lower (all_questions a))"
            "similarity_threshold a" "duplicates a"] assms
    by (simp add: qa_compute_idf_table)
qed

lemma length_with_vectors: "length (with_vectors questions) = length questions"
  by (simp add: with_vectors_def)

lemma length_qa_with_vectors: "length (qa_with_vectors lower questions) = length questions"
  by (simp add: qa_with_vectors_def Let_def)

lemma retained_pairs_nth:
  "set (retained_pairs (map f qs) t) =
     {(i, j, s). i < j \<and> j < length qs \<and>
        cosine_similarity (f (qs ! i)) (f (qs ! j)) = Inr s \<and> t \<le> s}"
  unfolding set_retained_pairs by (auto simp: cosine_similarity_value)

lemma retained_pairs_small: "length vs < 2 \<Longrightarrow> retained_pairs vs t = []"
proof -
  assume "length vs < 2"
  then have "set (retained_pairs vs t) = {}"
    unfolding set_retained_pairs by auto
  then show ?thesis by simp
qed

lemma ranked_before_irrefl: "\<not> ranked_before p p"
  by (auto simp: ranked_before_def split: prod.splits)

lemma ranked_before_asym: "ranked_before p q \<Longrightarrow> \<not> ranked_before q p"
  by (auto simp: ranked_before_def split: prod.splits)

lemma ranked_unique:
  "sorted_wrt ranked_before xs \<Longrightarrow> sorted_wrt ranked_before ys \<Longrightarrow> set xs = set ys \<Longrightarrow>
   xs = ys"
proof (induction xs arbitrary: ys)
  case Nil
  then show ?case by simp
next
  case (Cons x xs)
  from Cons.prems(3) obtain y ys' where ys: "ys = y # ys'" by (cases ys) auto
  from Cons.prems(1) have x_min: "\<forall>z\<in>set xs. ranked_before x z"
    and sx: "sorted_wrt ranked_before xs" by simp_all
  from Cons.prems(2) ys have y_min: "\<forall>z\<in>set ys'. ranked_before y z"
    and sy: "sorted_wrt ranked_before ys'" by simp_all
  have xy: "x = y"
  proof (rule ccontr)
    assume ne: "x \<noteq> y"
    from Cons.prems(3) ys ne have "x \<in> set ys'" by auto
    with y_min have 1: "ranked_before y x" by blast
    from Cons.prems(3) ys ne have "y \<in> set xs" by auto
    with x_min have "ranked_before x y" by blast
    with 1 ranked_before_asym show False by blast
  qed
  have "x \<notin> set xs" using x_min ranked_before_irrefl by blast
  moreover have "y \<notin> set ys'" using y_min ranked_before_irrefl by blast
  ultimately have "set xs = set ys'"
    using Cons.prems(3) ys xy by auto
  from Cons.IH[OF sx sy this] xy ys show ?case by simp
qed


section \<open>Results of the duplicate searches\<close>

lemma split_abc_def: "split_ws (str ''abc def'') = [str ''abc'', str ''def'']"
  by (simp add: str_def isspace_def)

lemma idf_two_equal:
  "compute_idf [str ''abc def'', str ''abc def''] = Inr [(str ''abc'', 1), (str ''def'', 1)]"
  unfolding compute_idf_def count_documents_def
  by (simp add: count_word_def py_truediv_def math_log_def str_def isspace_def)

lemma vector_abc_def:
  "compute_tfidf_vector (str ''abc def'') [(str ''abc'', 1), (str ''def'', 1)] =
     Inr [(str ''abc'', 1 / 2), (str ''def'', 1 / 2)]"
  unfolding compute_tfidf_vector_def freq_abc_def
  by (simp add: py_truediv_def dict_get_def str_def)

lemma cosine_equal_vectors:
  "cosine_similarity [(str ''abc'', 1 / 2), (str ''def'', 1 / 2)]
     [(str ''abc'', 1 / 2), (str ''def'', 1 / 2)] = Inr 1"
proof -
  have "(1 / 2 :: real)\<^sup>2 + (1 / 2)\<^sup>2 = 1 / 2" by (simp add: power2_eq_square)
  then have m: "sum_list (map (\<lambda>(k, val). val\<^sup>2) [(str ''abc'', 1 / 2 :: real), (str ''def'', 1 / 2)])
     = 1 / 2" by simp
  have s: "sqrt (1 / 2) * sqrt (1 / 2) = (1 / 2 :: real)" by simp
  have n: "sqrt (1 / 2 :: real) \<noteq> 0" by simp
  show ?thesis
    unfolding cosine_similarity_def m
    by (simp add: getitem_def math_sqrt_def py_truediv_def str_def s n del: real_sqrt_divide)
qed

lemma q_text_example: "q_text (example_question i t) = t"
  by (simp add: example_question_def)

lemma find_similar_example:
  "find_similar_questions_in_file
     [example_question 0 (str ''abc def''), example_question 1 (str ''abc def'')] (7 / 10) =
   Inr ([(example_question 0 (str ''abc def''))
           \<lparr>q_vector := [(str ''abc'', 1 / 2), (str ''def'', 1 / 2)]\<rparr>,
         (example_question 1 (str ''abc def''))
           \<lparr>q_vector := [(str ''abc'', 1 / 2), (str ''def'', 1 / 2)]\<rparr>],
        [(0, 1, 1)])"
  unfolding find_similar_questions_in_file_def
  by (simp add: q_text_example idf_two_equal vector_abc_def cosine_equal_vectors
        sort_by_similarity_def upt_conv_Cons)

lemma duplicates_analyzer_of_two: "duplicates analyzer_of_two = []"
  by (simp add: analyzer_of_two_def analyzer_of_one_def analyze_question_def new_analyzer_def str_def)

lemma length_analyzer_of_two: "length (all_questions analyzer_of_two) = 2"
  by (simp add: analyzer_of_two_def analyzer_of_one_def analyze_question_def new_analyzer_def str_def)

lemma duplicates_analyzer_of_one: "duplicates analyzer_of_one = []"
  by (simp add: analyzer_of_one_def analyze_question_def new_analyzer_def str_def)

lemma length_analyzer_of_one: "length (all_questions analyzer_of_one) = 1"
  by (simp add: analyzer_of_one_def analyze_question_def new_analyzer_def str_def)

lemma split_a_b_cd: "split_ws (str ''a b cd'') = [str ''a'', str ''b'', str ''cd'']"
  by (simp add: str_def isspace_def)

lemma ranked_unique_all:
  "sorted_wrt ranked_before ps \<Longrightarrow>
   \<forall>ps'. set ps' = set ps \<and> sorted_wrt ranked_before ps' \<longrightarrow> ps' = ps"
  using ranked_unique by blast

lemma no_pairs_below_2:
  "n < 2 \<Longrightarrow> {(i, j, s). i < j \<and> j < (n::nat) \<and> P i j s} = {}"
  by auto

lemma tfidf_value_degenerate:
  assumes "\<forall>w\<in>set (split_ws txt). length w \<le> 2"
  shows "tfidf_value txt idf = []"
proof -
  have "fst ` set (compute_word_freq txt) = {}"
    unfolding compute_word_freq_keys using assms by fastforce
  then have "compute_word_freq txt = []" by simp
  then show ?thesis by (simp add: tfidf_value_eq)
qed

text \<open>
  In exact arithmetic (the weights as reals, where a sum does not depend on the order of its
  terms), both duplicate searches return without error exactly the index pairs \<open>(i, j)\<close>
  with \<open>i < j\<close> whose cosine similarity is greater than or equal to the threshold, each
  with its similarity, sorted by similarity, the larger first, and pairs of equal similarity
  in document order; this order leaves one list only.  (\<open>find_duplicates\<close> appends to
  \<open>self.duplicates\<close>, which is empty when the search starts.)  The section on floating
  point below shows what remains of this in a run of the program.
\<close>

lemma exact_pair_finding:
  "(\<exists>qs ps. find_similar_questions_in_file questions t = Inr (qs, ps) \<and>
      length qs = length questions \<and>
      set ps = {(i, j, s). i < j \<and> j < length qs \<and>
                  cosine_similarity (q_vector (qs ! i)) (q_vector (qs ! j)) = Inr s \<and> t \<le> s} \<and>
      sorted_wrt ranked_before ps \<and>
      (\<forall>ps'. set ps' = set ps \<and> sorted_wrt ranked_before ps' \<longrightarrow> ps' = ps)) \<and>
   (duplicates a = [] \<longrightarrow>
     (\<exists>a'. find_duplicates lower a = Inr a' \<and>
        length (all_questions a') = length (all_questions a) \<and>
        set (duplicates a') =
          {(i, j, s). i < j \<and> j < length (all_questions a') \<and>
             cosine_similarity (qa_vector (all_questions a' ! i))
               (qa_vector (all_questions a' ! j)) = Inr s \<and>
             similarity_threshold a \<le> s} \<and>
        sorted_wrt ranked_before (duplicates a') \<and>
        (\<forall>ps'. set ps' = set (duplicates a') \<and> sorted_wrt ranked_before ps' \<longrightarrow>
           ps' = duplicates a')))"
proof (intro conjI impI)
  let ?qs = "with_vectors questions"
  let ?ps = "sort_by_similarity (retained_pairs (map q_vector ?qs) t)"
  have 1: "find_similar_questions_in_file questions t = Inr (?qs, ?ps)"
    by (rule find_similar_questions_in_file_Inr)
  have 2: "length ?qs = length questions" by (rule length_with_vectors)
  have 3: "set ?ps = {(i, j, s). i < j \<and> j < length ?qs \<and>
                  cosine_similarity (q_vector (?qs ! i)) (q_vector (?qs ! j)) = Inr s \<and> t \<le> s}"
    by (simp only: set_sort_by_similarity retained_pairs_nth)
  have 4: "sorted_wrt ranked_before ?ps"
    by (intro sorted_sort_by_similarity sorted_retained_pairs)
  have 5: "\<forall>ps'. set ps' = set ?ps \<and> sorted_wrt ranked_before ps' \<longrightarrow> ps' = ?ps"
    using 4 by (rule ranked_unique_all)
  show "\<exists>qs ps. find_similar_questions_in_file questions t = Inr (qs, ps) \<and>
      length qs = length questions \<and>
      set ps = {(i, j, s). i < j \<and> j < length qs \<and>
                  cosine_similarity (q_vector (qs ! i)) (q_vector (qs ! j)) = Inr s \<and> t \<le> s} \<and>
      sorted_wrt ranked_before ps \<and>
      (\<forall>ps'. set ps' = set ps \<and> sorted_wrt ranked_before ps' \<longrightarrow> ps' = ps)"
    by (intro exI[of _ ?qs] exI[of _ ?ps] conjI 1 2 3 4 5)
next
  assume d: "duplicates a = []"
  let ?P = "\<lambda>a'. find_duplicates lower a = Inr a' \<and>
        length (all_questions a') = length (all_questions a) \<and>
        set (duplicates a') =
          {(i, j, s). i < j \<and> j < length (all_questions a') \<and>
             cosine_similarity (qa_vector (all_questions a' ! i))
               (qa_vector (all_questions a' ! j)) = Inr s \<and>
             similarity_threshold a \<le> s} \<and>
        sorted_wrt ranked_before (duplicates a') \<and>
        (\<forall>ps'. set ps' = set (duplicates a') \<and> sorted_wrt ranked_before ps' \<longrightarrow>
           ps' = duplicates a')"
  show "\<exists>a'. ?P a'"
  proof (cases "length (all_questions a) < 2")
    case True
    have 1: "find_duplicates lower a = Inr a"
      using True by (simp add: find_duplicates_def)
    have 3: "set (duplicates a) = {(i, j, s). i < j \<and> j < length (all_questions a) \<and>
             cosine_similarity (qa_vector (all_questions a ! i))
               (qa_vector (all_questions a ! j)) = Inr s \<and>
             similarity_threshold a \<le> s}"
      unfolding no_pairs_below_2[OF True] d by simp
    have 4: "sorted_wrt ranked_before (duplicates a)"
      unfolding d by simp
    have 5: "\<forall>ps'. set ps' = set (duplicates a) \<and> sorted_wrt ranked_before ps' \<longrightarrow>
           ps' = duplicates a"
      using 4 by (rule ranked_unique_all)
    have "?P a" by (intro conjI refl 1 3 4 5)
    then show ?thesis by (rule exI)
  next
    case False
    let ?qs = "qa_with_vectors lower (all_questions a)"
    let ?ps = "sort_by_similarity (retained_pairs (map qa_vector ?qs) (similarity_threshold a))"
    let ?a = "a\<lparr>all_questions := ?qs, duplicates := ?ps\<rparr>"
    have sel: "all_questions ?a = ?qs" "duplicates ?a = ?ps" by simp_all
    have 1: "find_duplicates lower a = Inr ?a"
      unfolding find_duplicates_Inr[OF False] d by simp
    have 2: "length ?qs = length (all_questions a)" by (rule length_qa_with_vectors)
    have 3: "set ?ps = {(i, j, s). i < j \<and> j < length ?qs \<and>
                  cosine_similarity (qa_vector (?qs ! i)) (qa_vector (?qs ! j)) = Inr s \<and>
                  similarity_threshold a \<le> s}"
      by (simp only: set_sort_by_similarity retained_pairs_nth)
    have 4: "sorted_wrt ranked_before ?ps"
      by (intro sorted_sort_by_similarity sorted_retained_pairs)
    have 5: "\<forall>ps'. set ps' = set ?ps \<and> sorted_wrt ranked_before ps' \<longrightarrow> ps' = ?ps"
      using 4 by (rule ranked_unique_all)
    have "?P ?a" unfolding sel by (intro conjI 1 2 3 4 5)
    then show ?thesis by (rule exI)
  qed
qed

lemma exact_pair_finding_example:
  "duplicates analyzer_of_two = [] \<and> length (all_questions analyzer_of_two) = 2 \<and>
   (\<exists>qs. find_similar_questions_in_file
      [example_question 0 (str ''abc def''), example_question 1 (str ''abc def'')] (7 / 10) =
      Inr (qs, [(0, 1, 1)])) \<and>
   (\<exists>a'. find_duplicates ascii_lower analyzer_of_two = Inr a' \<and>
        length (all_questions a') = 2 \<and>
        set (duplicates a') =
          {(i, j, s). i < j \<and> j < length (all_questions a') \<and>
             cosine_similarity (qa_vector (all_questions a' ! i))
               (qa_vector (all_questions a' ! j)) = Inr s \<and>
             similarity_threshold analyzer_of_two \<le> s} \<and>
        sorted_wrt ranked_before (duplicates a'))"
proof -
  note th = exact_pair_finding [of
      "[example_question 0 (str ''abc def''), example_question 1 (str ''abc def'')]" "7 / 10"
      analyzer_of_two ascii_lower]
  from th obtain qs ps where e: "find_similar_questions_in_file
      [example_question 0 (str ''abc def''), example_question 1 (str ''abc def'')] (7 / 10) =
      Inr (qs, ps)" by blast
  from e [unfolded find_similar_example] have "ps = [(0, 1, 1)]" by simp
  with e have a: "\<exists>qs. find_similar_questions_in_file
      [example_question 0 (str ''abc def''), example_question 1 (str ''abc def'')] (7 / 10) =
      Inr (qs, [(0, 1, 1)])"
    by blast
  from th [THEN conjunct2, THEN mp, OF duplicates_analyzer_of_two]
  obtain a' where b: "find_duplicates ascii_lower analyzer_of_two = Inr a'"
    "length (all_questions a') = length (all_questions analyzer_of_two)"
    "set (duplicates a') =
          {(i, j, s). i < j \<and> j < length (all_questions a') \<and>
             cosine_similarity (qa_vector (all_questions a' ! i))
               (qa_vector (all_questions a' ! j)) = Inr s \<and>
             similarity_threshold analyzer_of_two \<le> s}"
    "sorted_wrt ranked_before (duplicates a')"
    by blast
  from b(2) have c: "length (all_questions a') = 2"
    by (simp only: length_analyzer_of_two)
  show ?thesis
    by (intro conjI duplicates_analyzer_of_two length_analyzer_of_two a
          exI[of _ a'] b(1) c b(3) b(4))
qed



text \<open>
  C6: for a document whose normalized text has no token of more than two characters,
  \<open>compute_tfidf_vector\<close> returns the empty vector without error; \<open>cosine_similarity\<close> of
  the empty vector and any vector is 0, on either side; and at a threshold greater than 0
  no retained pair contains such a document.
\<close>

theorem degenerate_document:
  "((\<forall>w\<in>set (split_ws txt). length w \<le> 2) \<longrightarrow> compute_tfidf_vector txt idf = Inr []) \<and>
   cosine_similarity [] v = Inr 0 \<and> cosine_similarity v [] = Inr 0 \<and>
   (k < length questions \<and> (\<forall>w\<in>set (split_ws (q_text (questions ! k))). length w \<le> 2) \<and>
    0 < t \<longrightarrow>
      (\<exists>qs ps. find_similar_questions_in_file questions t = Inr (qs, ps) \<and>
         q_vector (qs ! k) = [] \<and> (\<forall>(i, j, s)\<in>set ps. i \<noteq> k \<and> j \<noteq> k)))"
proof (intro conjI impI)
  assume "\<forall>w\<in>set (split_ws txt). length w \<le> 2"
  then show "compute_tfidf_vector txt idf = Inr []"
    by (simp add: compute_tfidf_vector_value tfidf_value_degenerate)
next
  show "cosine_similarity [] v = Inr 0" by (rule cosine_empty)
  show "cosine_similarity v [] = Inr 0" by (rule cosine_empty)
next
  assume h: "k < length questions \<and>
    (\<forall>w\<in>set (split_ws (q_text (questions ! k))). length w \<le> 2) \<and> 0 < t"
  let ?qs = "with_vectors questions"
  let ?ps = "sort_by_similarity (retained_pairs (map q_vector ?qs) t)"
  from h have vk: "q_vector (?qs ! k) = []"
    by (simp add: with_vectors_def tfidf_value_degenerate)
  have "i \<noteq> k \<and> j \<noteq> k" if m: "(i, j, s) \<in> set ?ps" for i j s
  proof -
    from m have c: "cosine_similarity (q_vector (?qs ! i)) (q_vector (?qs ! j)) = Inr s"
      and ts: "t \<le> s"
      unfolding set_sort_by_similarity retained_pairs_nth by simp_all
    from h ts have "s \<noteq> 0" by auto
    with c vk cosine_empty show ?thesis by auto
  qed
  then have "\<forall>(i, j, s)\<in>set ?ps. i \<noteq> k \<and> j \<noteq> k" by auto
  with vk show "\<exists>qs ps. find_similar_questions_in_file questions t = Inr (qs, ps) \<and>
         q_vector (qs ! k) = [] \<and> (\<forall>(i, j, s)\<in>set ps. i \<noteq> k \<and> j \<noteq> k)"
    unfolding find_similar_questions_in_file_Inr by simp
qed

theorem degenerate_document_witness:
  "split_ws (str ''a b cd'') = [str ''a'', str ''b'', str ''cd''] \<and>
   compute_tfidf_vector (str ''a b cd'') [(str ''abc'', 1)] = Inr [] \<and>
   cosine_similarity [] [(str ''abc'', 1)] = Inr 0 \<and>
   cosine_similarity [(str ''abc'', 1)] [] = Inr 0 \<and>
   (\<exists>qs ps. find_similar_questions_in_file
        [example_question 0 (str ''abc def''), example_question 1 (str ''a b cd'')] (1 / 2) =
        Inr (qs, ps) \<and>
      q_vector (qs ! 1) = [] \<and> (\<forall>(i, j, s)\<in>set ps. i \<noteq> 1 \<and> j \<noteq> 1))"
proof -
  note th = degenerate_document [of "str ''a b cd''" "[(str ''abc'', 1)]" "[(str ''abc'', 1)]" 1
      "[example_question 0 (str ''abc def''), example_question 1 (str ''a b cd'')]" "1 / 2"]
  have short: "\<forall>w\<in>set (split_ws (str ''a b cd'')). length w \<le> 2"
    unfolding split_a_b_cd by (simp add: str_def)
  have k: "(1::nat) < length [example_question 0 (str ''abc def''),
                              example_question 1 (str ''a b cd'')] \<and>
    (\<forall>w\<in>set (split_ws (q_text ([example_question 0 (str ''abc def''),
            example_question 1 (str ''a b cd'')] ! 1))). length w \<le> 2) \<and> (0::real) < 1 / 2"
    using short by (simp add: q_text_example)
  show ?thesis
    by (intro conjI split_a_b_cd
          th [THEN conjunct1, THEN mp, OF short]
          th [THEN conjunct2, THEN conjunct1]
          th [THEN conjunct2, THEN conjunct2, THEN conjunct1]
          th [THEN conjunct2, THEN conjunct2, THEN conjunct2, THEN mp, OF k])
qed

text \<open>
  C7: with fewer than two documents \<open>find_similar_questions_in_file\<close> returns no pair, and
  \<open>find_duplicates\<close> returns at once and leaves the analyzer, and its empty list of
  duplicates, as they are; neither raises an error.
\<close>

theorem small_corpus:
  "(length questions < 2 \<longrightarrow>
      (\<exists>qs. find_similar_questions_in_file questions t = Inr (qs, []))) \<and>
   (length (all_questions a) < 2 \<longrightarrow> find_duplicates lower a = Inr a) \<and>
   (length (all_questions a) < 2 \<and> duplicates a = [] \<longrightarrow>
      (\<exists>a'. find_duplicates lower a = Inr a' \<and> duplicates a' = []))"
proof (intro conjI impI)
  assume "length questions < 2"
  then have "retained_pairs (map q_vector (with_vectors questions)) t = []"
    by (intro retained_pairs_small) (simp add: length_with_vectors)
  then show "\<exists>qs. find_similar_questions_in_file questions t = Inr (qs, [])"
    unfolding find_similar_questions_in_file_Inr by (simp add: sort_by_similarity_def)
next
  assume "length (all_questions a) < 2"
  then show "find_duplicates lower a = Inr a" by (simp add: find_duplicates_def)
next
  assume "length (all_questions a) < 2 \<and> duplicates a = []"
  then show "\<exists>a'. find_duplicates lower a = Inr a' \<and> duplicates a' = []"
    by (simp add: find_duplicates_def)
qed

theorem small_corpus_witness:
  "length [example_question 0 (str ''abc def'')] < 2 \<and>
   (\<exists>qs. find_similar_questions_in_file [example_question 0 (str ''abc def'')] (7 / 10) =
      Inr (qs, [])) \<and>
   length (all_questions analyzer_of_one) < 2 \<and> duplicates analyzer_of_one = [] \<and>
   find_duplicates ascii_lower analyzer_of_one = Inr analyzer_of_one \<and>
   (\<exists>a'. find_duplicates ascii_lower analyzer_of_one = Inr a' \<and> duplicates a' = [])"
proof -
  note th = small_corpus [of "[example_question 0 (str ''abc def'')]" "7 / 10"
      analyzer_of_one ascii_lower]
  have 1: "length [example_question 0 (str ''abc def'')] < 2" by simp
  have 2: "length (all_questions analyzer_of_one) < 2"
    by (simp add: length_analyzer_of_one)
  have 3: "length (all_questions analyzer_of_one) < 2 \<and> duplicates analyzer_of_one = []"
    using 2 duplicates_analyzer_of_one by (rule conjI)
  show ?thesis
    by (intro conjI 1 2 duplicates_analyzer_of_one
          th [THEN conjunct1, THEN mp, OF 1]
          th [THEN conjunct2, THEN conjunct1, THEN mp, OF 2]
          th [THEN conjunct2, THEN conjunct2, THEN mp, OF 3])
qed

section \<open>Floating point: the result depends on the iteration order\<close>































subsection \<open>The loops for any similarity function\<close>






lemma compare_with_by_exact:
  "compare_with_by cosine_similarity vs t i js acc = compare_with vs t i js acc"
  by (induction js arbitrary: acc) (simp_all add: cosine_similarity_value)

lemma compare_all_by_exact:
  "compare_all_by cosine_similarity vs t rows acc = compare_all vs t rows acc"
  by (induction rows arbitrary: acc) (simp_all add: compare_with_by_exact compare_with_Inr)

lemma pair_finding_step_cosine:
  "pair_finding_step cosine_similarity vs t acc =
     Inr (sort_by_similarity (acc @ retained_pairs vs t))"
  unfolding pair_finding_step_def compare_all_by_exact
  by (simp add: compare_all_retained)

lemma find_duplicates_step:
  assumes "\<not> length (all_questions a) < 2"
  shows "find_duplicates lower a =
     (case pair_finding_step cosine_similarity
             (map qa_vector (qa_with_vectors lower (all_questions a)))
             (similarity_threshold a) (duplicates a) of
        Inl e \<Rightarrow> Inl e
      | Inr ps \<Rightarrow>
          Inr (a\<lparr>all_questions := qa_with_vectors lower (all_questions a), duplicates := ps\<rparr>))"
  by (simp add: pair_finding_step_cosine find_duplicates_Inr[OF assms])

lemma pair_finding_step_exact:
  "find_similar_questions_in_file questions t =
     (case pair_finding_step cosine_similarity (map q_vector (with_vectors questions)) t [] of
        Inl e \<Rightarrow> Inl e
      | Inr ps \<Rightarrow> Inr (with_vectors questions, ps))"
proof -
  have "pair_finding_step cosine_similarity (map q_vector (with_vectors questions)) t [] =
          Inr (sort_by_similarity (retained_pairs (map q_vector (with_vectors questions)) t))"
    unfolding pair_finding_step_def compare_all_by_exact
    using compare_all_retained[of "map q_vector (with_vectors questions)" t "[]"] by simp
  then show ?thesis
    by (simp add: find_similar_questions_in_file_Inr)
qed

lemma threshold_example: "(4503599627370497 / 9007199254740992 :: real) = 1 / 2 + 1 / 2 ^ 53"
  by simp








end
